theory Spec2Isabelle
  imports Complex_Main "HOL-Library.Sublist"
begin

unbundle bit_operations_syntax

section \<open>Runtime values\<close>

text \<open>
  The engine of \<^verbatim>\<open>fast-transform.interceptor.ts\<close> works on values of type \<^verbatim>\<open>any\<close>.
  The model is a closed universe of data values: the primitives, dates, arrays and
  records.  A number is NaN, an infinity or a finite value (the rationals contain
  every finite double; the engine does no arithmetic on numbers).  A date holds its
  time value, \<open>None\<close> for an invalid date.  A record lists its own enumerable
  properties in \<^verbatim>\<open>Object.entries\<close> order and, when it exposes a callable \<^verbatim>\<open>get\<close>
  member (a Sequelize model), the snapshot which \<^verbatim>\<open>get({ plain: true })\<close> returns.
  Arrays are dense.  Function values other than that hook are outside the model, so no
  property of a value of the model can be called.
\<close>

datatype jsnum = NaN | PosInf | NegInf | Fin rat

datatype jsval =
    JUndefined
  | JNull
  | JBool bool
  | JNum jsnum
  | JStr string
  | JBigInt int
  | JSym nat
  | JDate "int option"
  | JArr "jsval list"
  | JObj "jsval option" "(string \<times> jsval) list"

text \<open>\<^verbatim>\<open>typeof value === 'object'\<close> (which holds of \<^verbatim>\<open>null\<close> too).\<close>

fun typeofObject :: "jsval \<Rightarrow> bool" where
  "typeofObject JNull = True"
| "typeofObject (JDate d) = True"
| "typeofObject (JArr xs) = True"
| "typeofObject (JObj h ps) = True"
| "typeofObject v = False"

fun isArray :: "jsval \<Rightarrow> bool" where
  "isArray (JArr xs) = True"
| "isArray v = False"

fun elements :: "jsval \<Rightarrow> jsval list" where
  "elements (JArr xs) = xs"
| "elements v = []"

text \<open>\<^verbatim>\<open>typeof obj.get === 'function'\<close> followed by \<^verbatim>\<open>obj = obj.get({ plain: true })\<close>.\<close>

fun materialize :: "jsval \<Rightarrow> jsval" where
  "materialize (JObj (Some snapshot) ps) = snapshot"
| "materialize v = v"

text \<open>Decimal rendering of an index, as a template literal renders a number.\<close>

function show_nat :: "nat \<Rightarrow> string" where
  "show_nat n =
     (if n < 10 then [char_of (48 + n)]
      else show_nat (n div 10) @ [char_of (48 + n mod 10)])"
  by pat_completeness auto
termination
  by (relation "measure id") auto

declare show_nat.simps [simp del]

fun indexed :: "nat \<Rightarrow> jsval list \<Rightarrow> (string \<times> jsval) list" where
  "indexed i [] = []"
| "indexed i (x # xs) = (show_nat i, x) # indexed (Suc i) xs"

text \<open>
  The own properties which \<^verbatim>\<open>Object.prototype.hasOwnProperty\<close> and \<^verbatim>\<open>obj[key]\<close> see: the
  entries of a record, the indices and \<^verbatim>\<open>length\<close> of an array or of a string, nothing for the
  other values.
\<close>

fun ownProps :: "jsval \<Rightarrow> (string \<times> jsval) list" where
  "ownProps (JObj h ps) = ps"
| "ownProps (JArr xs) = indexed 0 xs @ [(''length'', JNum (Fin (of_nat (length xs))))]"
| "ownProps (JStr s) =
     indexed 0 (map (\<lambda>c. JStr [c]) s) @ [(''length'', JNum (Fin (of_nat (length s))))]"
| "ownProps v = []"

text \<open>What the built-in \<^verbatim>\<open>Object.prototype.hasOwnProperty\<close> answers for a value and a key.\<close>

definition ownProperty :: "jsval \<Rightarrow> string \<Rightarrow> bool" where
  "ownProperty obj key = (map_of (ownProps obj) key \<noteq> None)"

text \<open>
  \<^verbatim>\<open>obj[key]\<close>; the engine reads it only for a key that is an own property of the value.
\<close>

definition getProp :: "jsval \<Rightarrow> string \<Rightarrow> jsval" where
  "getProp obj key = (case map_of (ownProps obj) key of Some v \<Rightarrow> v | None \<Rightarrow> JUndefined)"

text \<open>\<^verbatim>\<open>result[key] = v\<close> on an object under construction.\<close>

fun assign :: "(string \<times> 'a) list \<Rightarrow> string \<Rightarrow> 'a \<Rightarrow> (string \<times> 'a) list" where
  "assign [] k v = [(k, v)]"
| "assign ((k', v') # ps) k v = (if k' = k then (k, v) # ps else (k', v') # assign ps k v)"

section \<open>Raw metadata and prepared fields\<close>

text \<open>
  The resolved \<^verbatim>\<open>type\<close> of a raw field description: a class (a function whose source text
  starts with \<^verbatim>\<open>class\<close>), another function such as \<^verbatim>\<open>Number\<close> or \<^verbatim>\<open>Object\<close> (by name), an
  array literal, an inline map of field descriptions, or nothing.  \<^verbatim>\<open>required\<close> and
  \<^verbatim>\<open>nullable\<close> are booleans; \<^verbatim>\<open>enum\<close> holds \<^verbatim>\<open>Object.values\<close> of the declared enum.
\<close>

datatype rawtype =
    TClass string
  | TFunc string
  | TArray "rawtype list"
  | TInline "(string \<times> rawfield) list"
  | TUndefined
and rawfield =
  RawField (rtype: rawtype) (renum: "jsval list option") (rrequired: bool) (rnullable: bool)

text \<open>The object which \<^verbatim>\<open>prepareField\<close> builds (its \<^verbatim>\<open>metadata\<close> copy is not read again).\<close>

datatype field =
  Field (ftype: rawtype) (fenum: "jsval list option") (required: bool) (nullable: bool)
        (isEnum: bool) (isPrimitive: bool) (isClass: bool) (isArrayOfClass: bool)
        (isArrayOfPrimitive: bool) (isNestedObject: bool) (noCheck: bool)
        (expectedType: "string option") (nestedFields: "(string \<times> field) list")
        (typeCheck: nat)

text \<open>
  What the engine reads from outside: the \<^verbatim>\<open>_OPENAPI_METADATA_FACTORY\<close> of a class and the
  \<^verbatim>\<open>Reflect\<close> metadata written by the decorators, all keyed by class name as the cache is.
\<close>

record registry =
  factory :: "string \<Rightarrow> (string \<times> rawfield) list option"
  classNoCheck :: "string \<Rightarrow> bool"
  classNoCheckPrimitives :: "string \<Rightarrow> bool"
  propNoCheck :: "string \<Rightarrow> string \<Rightarrow> bool"
  propNoOut :: "string \<Rightarrow> string \<Rightarrow> bool"

fun isClassType :: "rawtype \<Rightarrow> bool" where
  "isClassType (TClass c) = True"
| "isClassType t = False"

fun isArrayType :: "rawtype \<Rightarrow> bool" where
  "isArrayType (TArray ts) = True"
| "isArrayType t = False"

text \<open>\<^verbatim>\<open>type[0]\<close>.\<close>

fun firstType :: "rawtype \<Rightarrow> rawtype" where
  "firstType (TArray (t # ts)) = t"
| "firstType t = TUndefined"

fun isInlineType :: "rawtype \<Rightarrow> bool" where
  "isInlineType (TInline m) = True"
| "isInlineType t = False"

fun getExpectedTypeName :: "rawtype \<Rightarrow> string" where
  "getExpectedTypeName (TFunc f) =
     (if f = ''Number'' then ''number''
      else if f = ''String'' then ''string''
      else if f = ''Boolean'' then ''boolean''
      else if f = ''BigInt'' then ''bigint''
      else if f = ''Symbol'' then ''symbol''
      else if f = ''Date'' then ''date''
      else ''unknown'')"
| "getExpectedTypeName t = ''unknown''"

fun prepareField :: "registry \<Rightarrow> rawfield \<Rightarrow> bool \<Rightarrow> bool \<Rightarrow> field"
and prepareEntries ::
  "registry \<Rightarrow> (string \<times> rawfield) list \<Rightarrow> string \<Rightarrow> bool \<Rightarrow> bool \<Rightarrow>
   (string \<times> field) list \<Rightarrow> (string \<times> field) list"
where
  "prepareField R (RawField type enum req nul) nc ncp =
     (let nestedObject = isInlineType type;
          enumerated = (enum \<noteq> None);
          nested = (case type of
                      TInline m \<Rightarrow> prepareEntries R m ''Object'' nc ncp []
                    | _ \<Rightarrow> []);
          cls = (\<not> nestedObject \<and> isClassType type);
          arrayOfClass = (\<not> nestedObject \<and> isArrayType type \<and> isClassType (firstType type));
          arrayOfPrimitive =
            (\<not> nestedObject \<and> isArrayType type \<and> \<not> isClassType (firstType type));
          primitive =
            (\<not> nestedObject \<and> \<not> cls \<and> \<not> arrayOfClass \<and> \<not> arrayOfPrimitive
             \<and> \<not> enumerated \<and> \<not> nestedObject);
          tc = (if primitive then 1 else 0) OR (if cls then 2 else 0)
               OR (if arrayOfClass then 4 else 0) OR (if enumerated then 8 else 0)
               OR (if arrayOfPrimitive then 16 else 0) OR (if nestedObject then 32 else 0)
      in Field type enum req nul enumerated primitive cls arrayOfClass arrayOfPrimitive
           nestedObject
           (if (primitive \<or> arrayOfPrimitive) \<and> ncp then True else nc)
           (if primitive \<or> arrayOfPrimitive
            then Some (getExpectedTypeName (if arrayOfPrimitive then firstType type else type))
            else None)
           nested tc)"
| "prepareEntries R [] cls cnc cncp acc = acc"
| "prepareEntries R ((key, value) # rest) cls cnc cncp acc =
     (if propNoOut R cls key then prepareEntries R rest cls cnc cncp acc
      else prepareEntries R rest cls cnc cncp
             (assign acc key (prepareField R value (cnc \<or> propNoCheck R cls key) cncp)))"

text \<open>\<^verbatim>\<open>prepareMetadata\<close>: the reduce over \<^verbatim>\<open>Object.entries(metadata)\<close> from the empty object.\<close>

definition prepareMetadata ::
  "registry \<Rightarrow> (string \<times> rawfield) list \<Rightarrow> string \<Rightarrow> bool \<Rightarrow> bool \<Rightarrow> (string \<times> field) list"
where
  "prepareMetadata R metadata cls cnc cncp = prepareEntries R metadata cls cnc cncp []"

section \<open>Errors and host conversions\<close>

text \<open>
  \<^verbatim>\<open>TransformError\<close> with its constructor arguments in order: message, dtoName, fieldName,
  receivedValue, expectedType, expectedValues, fullObject, filter.  The last argument is
  a whole filter in \<^verbatim>\<open>transform\<close> and a single prepared field elsewhere.  \<open>TypeError\<close> is
  the exception of the language itself (a member read on \<^verbatim>\<open>undefined\<close>, a call of something
  that is no function).
\<close>

datatype errctx = CtxFilter "(string \<times> field) list" | CtxField field

datatype err =
    TransformError string string string jsval "string option" "jsval list option" jsval errctx
  | TypeError

text \<open>
  The call \<^verbatim>\<open>obj.hasOwnProperty(key)\<close>, which the engine makes on the received value itself.
  On \<^verbatim>\<open>undefined\<close> and \<^verbatim>\<open>null\<close> the member read throws.  An own property named
  \<^verbatim>\<open>hasOwnProperty\<close> shadows the built-in method, and as it holds a data value the call
  throws too.  Otherwise the built-in method answers.
\<close>

definition hasOwnProperty :: "jsval \<Rightarrow> string \<Rightarrow> err + bool" where
  "hasOwnProperty obj key =
     (if obj = JUndefined \<or> obj = JNull then Inl TypeError
      else if ownProperty obj ''hasOwnProperty'' then Inl TypeError
      else Inr (ownProperty obj key))"

text \<open>
  The conversions \<^verbatim>\<open>Number(v)\<close>, \<^verbatim>\<open>String(v)\<close>, \<^verbatim>\<open>BigInt(v)\<close> and \<^verbatim>\<open>new Date(v)\<close> belong to the
  language, not to the repository: they are parameters of the model, \<open>None\<close> where the
  conversion throws.  \<^verbatim>\<open>Boolean(v)\<close> is the truthiness of the value.
\<close>

record host =
  toNumber :: "jsval \<Rightarrow> jsnum option"
  toStr :: "jsval \<Rightarrow> string option"
  toBigInt :: "jsval \<Rightarrow> int option"
  toDate :: "jsval \<Rightarrow> int option option"

fun toBoolean :: "jsval \<Rightarrow> bool" where
  "toBoolean JUndefined = False"
| "toBoolean JNull = False"
| "toBoolean (JBool b) = b"
| "toBoolean (JNum n) = (n \<noteq> NaN \<and> n \<noteq> Fin 0)"
| "toBoolean (JStr s) = (s \<noteq> [])"
| "toBoolean (JBigInt i) = (i \<noteq> 0)"
| "toBoolean v = True"

definition quoted :: "string \<Rightarrow> string" where
  "quoted s = [CHR 0x27] @ s @ [CHR 0x27]"

text \<open>A template literal renders \<^verbatim>\<open>null\<close> as the text null.\<close>

fun render :: "string option \<Rightarrow> string" where
  "render None = ''null''"
| "render (Some s) = s"

section \<open>The primitive coercer\<close>

fun isValidNumber :: "jsval \<Rightarrow> bool" where
  "isValidNumber (JNum n) = (n \<noteq> NaN)"
| "isValidNumber v = False"

fun isString :: "jsval \<Rightarrow> bool" where
  "isString (JStr s) = True"
| "isString v = False"

fun isBoolean :: "jsval \<Rightarrow> bool" where
  "isBoolean (JBool b) = True"
| "isBoolean v = False"

fun isBigInt :: "jsval \<Rightarrow> bool" where
  "isBigInt (JBigInt i) = True"
| "isBigInt v = False"

fun isSymbol :: "jsval \<Rightarrow> bool" where
  "isSymbol (JSym n) = True"
| "isSymbol v = False"

fun isValidDate :: "jsval \<Rightarrow> bool" where
  "isValidDate (JDate d) = (d \<noteq> None)"
| "isValidDate v = False"

definition validatePrimitiveType :: "jsval \<Rightarrow> string option \<Rightarrow> bool" where
  "validatePrimitiveType v et =
     (if et = Some ''number'' then isValidNumber v
      else if et = Some ''string'' then isString v
      else if et = Some ''boolean'' then isBoolean v
      else if et = Some ''bigint'' then isBigInt v
      else if et = Some ''symbol'' then isSymbol v
      else if et = Some ''date'' then isValidDate v
      else False)"

definition coerceToPrimitiveType :: "host \<Rightarrow> jsval \<Rightarrow> string option \<Rightarrow> jsval option" where
  "coerceToPrimitiveType H v et =
     (if et = Some ''number'' then map_option JNum (toNumber H v)
      else if et = Some ''string'' then map_option JStr (toStr H v)
      else if et = Some ''boolean'' then Some (JBool (toBoolean v))
      else if et = Some ''bigint'' then map_option JBigInt (toBigInt H v)
      else if et = Some ''date'' then map_option JDate (toDate H v)
      else Some v)"

definition wrongScalarType :: "jsval \<Rightarrow> field \<Rightarrow> string \<Rightarrow> err" where
  "wrongScalarType v fm fieldPath =
     TransformError (''Field should be a '' @ render (expectedType fm)) fieldPath []
       v (expectedType fm) None v (CtxField fm)"

definition transformPrimitive :: "host \<Rightarrow> jsval \<Rightarrow> field \<Rightarrow> string \<Rightarrow> err + jsval" where
  "transformPrimitive H v fm fieldPath =
     (if noCheck fm then Inr v
      else if \<not> validatePrimitiveType v (expectedType fm) then
        (case coerceToPrimitiveType H v (expectedType fm) of
           None \<Rightarrow> Inl (wrongScalarType v fm fieldPath)
         | Some coercedValue \<Rightarrow>
             if \<not> validatePrimitiveType coercedValue (expectedType fm)
             then Inl (wrongScalarType v fm fieldPath)
             else Inr coercedValue)
      else Inr v)"

section \<open>The secondary pass over an inline nested structure\<close>

text \<open>
  \<^verbatim>\<open>Array.prototype.includes\<close> compares with SameValueZero: primitives by value (NaN equal
  to itself), objects by identity; a received object is never the very object of a schema
  literal.
\<close>

definition arrayIncludes :: "jsval list \<Rightarrow> jsval \<Rightarrow> bool" where
  "arrayIncludes vs v = (v \<in> set vs \<and> (\<not> typeofObject v \<or> v = JNull))"

text \<open>\<^verbatim>\<open>validateFieldType\<close>; a prepared field is always an object, so its first test passes.\<close>

definition validateFieldType :: "jsval \<Rightarrow> field \<Rightarrow> bool \<times> string option" where
  "validateFieldType v fm =
     (if noCheck fm then (True, None)
      else if typeCheck fm = 1 then
        (let et = (if expectedType fm = None \<or> expectedType fm = Some []
                   then Some ''primitive'' else expectedType fm)
         in (validatePrimitiveType v et, et))
      else if typeCheck fm = 2 \<or> typeCheck fm = 32 then
        (typeofObject v \<and> v \<noteq> JNull, Some ''object'')
      else if typeCheck fm = 4 \<or> typeCheck fm = 16 then (isArray v, Some ''array'')
      else if typeCheck fm = 8 then
        ((case fenum fm of None \<Rightarrow> False | Some vs \<Rightarrow> arrayIncludes vs v), Some ''enum'')
      else (False, Some ''unknown''))"

definition isFieldRequired :: "field \<Rightarrow> bool" where
  "isFieldRequired fm = required fm"

text \<open>
  The loop of \<^verbatim>\<open>transformField\<close> over \<^verbatim>\<open>Object.entries(fieldMetadata.nestedFields)\<close>, run after
  the recursive transform of a nested structure: the first error it throws, if any.
\<close>

fun validateNested ::
  "jsval \<Rightarrow> field \<Rightarrow> string \<Rightarrow> (string \<times> field) list \<Rightarrow> err option" where
  "validateNested v fm fieldPath [] = None"
| "validateNested v fm fieldPath ((nestedKey, nestedValue) # rest) =
     (case hasOwnProperty v nestedKey of
        Inl e \<Rightarrow> Some e
      | Inr present \<Rightarrow>
          if present then
            (if \<not> fst (validateFieldType (getProp v nestedKey) nestedValue) then
               Some (TransformError (''Invalid type for nested field '' @ quoted nestedKey)
                       (fieldPath @ ''.'' @ nestedKey) nestedKey (getProp v nestedKey)
                       (snd (validateFieldType (getProp v nestedKey) nestedValue)) None v
                       (CtxField fm))
             else validateNested v fm fieldPath rest)
          else if isFieldRequired nestedValue then
            Some (TransformError (''Required nested field '' @ quoted nestedKey @ '' is missing'')
                    fieldPath nestedKey JUndefined None None v (CtxField fm))
          else validateNested v fm fieldPath rest)"

section \<open>Loops that stop at the first error\<close>

fun foldE :: "('a \<Rightarrow> 'b \<Rightarrow> 'e + 'b) \<Rightarrow> 'a list \<Rightarrow> 'b \<Rightarrow> 'e + 'b" where
  "foldE f [] acc = Inr acc"
| "foldE f (x # xs) acc = (case f x acc of Inl e \<Rightarrow> Inl e | Inr acc' \<Rightarrow> foldE f xs acc')"

fun mapiE :: "(nat \<Rightarrow> 'a \<Rightarrow> 'e + 'b) \<Rightarrow> nat \<Rightarrow> 'a list \<Rightarrow> 'e + 'b list" where
  "mapiE f i [] = Inr []"
| "mapiE f i (x # xs) =
     (case f i x of
        Inl e \<Rightarrow> Inl e
      | Inr y \<Rightarrow> (case mapiE f (Suc i) xs of Inl e \<Rightarrow> Inl e | Inr ys \<Rightarrow> Inr (y # ys)))"

lemma foldE_cong [fundef_cong]:
  assumes "xs = ys" "a = b" "\<And>x acc. x \<in> set ys \<Longrightarrow> f x acc = g x acc"
  shows "foldE f xs a = foldE g ys b"
  unfolding assms(1,2) using assms(3)
  by (induction ys arbitrary: b) (auto split: sum.splits)

lemma mapiE_cong [fundef_cong]:
  assumes "xs = ys" "i = j" "\<And>k x. x \<in> set ys \<Longrightarrow> f k x = g k x"
  shows "mapiE f i xs = mapiE g j ys"
  unfolding assms(1,2) using assms(3)
  by (induction ys arbitrary: j) (auto split: sum.splits)

section \<open>The transform engine\<close>

text \<open>
  \<^verbatim>\<open>transformDtoFilter\<close>: the cache memoises \<^verbatim>\<open>prepareMetadata\<close> per class name, so the cached
  filter is the prepared metadata.  Anything that is not a registered class has no
  metadata factory, and the call of the missing factory throws.
\<close>

definition transformDtoFilter :: "registry \<Rightarrow> rawtype \<Rightarrow> err + (string \<times> field) list" where
  "transformDtoFilter R t =
     (case t of
        TClass c \<Rightarrow>
          (case factory R c of
             None \<Rightarrow> Inl TypeError
           | Some metadata \<Rightarrow>
               Inr (prepareMetadata R metadata c (classNoCheck R c) (classNoCheckPrimitives R c)))
      | _ \<Rightarrow> Inl TypeError)"

text \<open>\<^verbatim>\<open>fieldMetadata.type.name\<close>, \<open>None\<close> where reading \<^verbatim>\<open>name\<close> throws.\<close>

fun typeName :: "rawtype \<Rightarrow> string option option" where
  "typeName (TClass c) = Some (Some c)"
| "typeName (TFunc f) = Some (Some f)"
| "typeName (TArray ts) = Some None"
| "typeName (TInline m) = Some None"
| "typeName TUndefined = None"

lemma size_elements: "x \<in> set (elements v) \<Longrightarrow> size x < size v"
  by (cases v) (auto simp: less_Suc_eq_le size_list_estimation')

lemma size_materialize: "size (materialize v) \<le> size v"
  by (cases v rule: materialize.cases) auto

lemma size_map_of:
  "map_of ps k = Some x \<Longrightarrow> size x < Suc (size_list (size_prod (\<lambda>_. 0) size) ps)"
  by (induction ps) (auto split: if_splits)

lemma map_of_indexed_in: "map_of (indexed i xs) k = Some x \<Longrightarrow> x \<in> set xs"
  by (induction i xs rule: indexed.induct) (auto split: if_splits)

lemma size_getProp:
  assumes "\<not> isArray obj" "typeofObject (getProp obj key)"
  shows "size (getProp obj key) < size obj"
proof (cases "map_of (ownProps obj) key")
  case None
  with assms(2) show ?thesis
    by (simp add: getProp_def)
next
  case (Some x)
  then have g: "getProp obj key = x"
    by (simp add: getProp_def)
  show ?thesis
  proof (cases obj)
    case (JObj h ps)
    with Some have "map_of ps key = Some x" by simp
    from size_map_of [OF this] JObj g show ?thesis by simp
  next
    case (JStr s)
    with Some have "\<not> typeofObject x"
      by (auto simp: map_add_Some_iff dest!: map_of_indexed_in split: if_splits)
    with g assms(2) show ?thesis by simp
  qed (use Some assms(1) in auto)
qed

function transform ::
  "registry \<Rightarrow> host \<Rightarrow> jsval \<Rightarrow> (string \<times> field) list \<Rightarrow> string \<Rightarrow> err + jsval"
and transformField ::
  "registry \<Rightarrow> host \<Rightarrow> jsval \<Rightarrow> field \<Rightarrow> string \<Rightarrow> err + jsval"
where
  "transform R H obj dtoFilter dtoName =
     (if obj = JUndefined \<or> obj = JNull then Inr JNull
      else if isArray (materialize obj) then
        (case mapiE (\<lambda>index item. transform R H item dtoFilter dtoName) 0
                (elements (materialize obj)) of
           Inl e \<Rightarrow> Inl e
         | Inr items \<Rightarrow> Inr (JArr items))
      else
        (case foldE
                (\<lambda>(key, value) result.
                   case hasOwnProperty (materialize obj) key of
                     Inl e \<Rightarrow> Inl e
                   | Inr present \<Rightarrow>
                       if \<not> present then
                         (if \<not> noCheck value \<and> (required value \<or> isNestedObject value) then
                            Inl (TransformError
                                   (''Required field '' @ quoted key @ '' is missing'')
                                   dtoName key JUndefined None None (materialize obj)
                                   (CtxFilter dtoFilter))
                          else Inr result)
                       else if getProp (materialize obj) key = JUndefined then
                         (if \<not> noCheck value \<and> required value then
                            Inl (TransformError
                                   (''Required field '' @ quoted key @ '' cannot be undefined'')
                                   dtoName key JUndefined None None (materialize obj)
                                   (CtxFilter dtoFilter))
                          else Inr result)
                       else if getProp (materialize obj) key = JNull then
                         (if noCheck value \<or> nullable value then
                            Inr (assign result key JNull)
                          else
                            Inl (TransformError (''Field '' @ quoted key @ '' cannot be null'')
                                   dtoName key JNull None None (materialize obj)
                                   (CtxFilter dtoFilter)))
                       else
                         (case transformField R H (getProp (materialize obj) key) value
                                 (dtoName @ ''.'' @ key) of
                            Inl e \<Rightarrow> Inl e
                          | Inr v \<Rightarrow> Inr (assign result key v)))
                dtoFilter [] of
           Inl e \<Rightarrow> Inl e
         | Inr result \<Rightarrow> Inr (JObj None result)))"
| "transformField R H v fm fieldPath =
     (if v = JUndefined then
        (if required fm then
           (case typeName (ftype fm) of
              None \<Rightarrow> Inl TypeError
            | Some tn \<Rightarrow>
                Inl (TransformError ''Required field is missing'' fieldPath [] v tn None v
                       (CtxField fm)))
         else Inr JUndefined)
      else if v = JNull \<and> nullable fm then Inr JNull
      else if isNestedObject fm then
        (if \<not> typeofObject v \<or> v = JNull then
           Inl (TransformError ''Field should be an object'' fieldPath [] v (Some ''object'')
                  None v (CtxField fm))
         else
           (case transform R H v (nestedFields fm) fieldPath of
              Inl e \<Rightarrow> Inl e
            | Inr transformedNested \<Rightarrow>
                (case validateNested v fm fieldPath (nestedFields fm) of
                   Some e \<Rightarrow> Inl e
                 | None \<Rightarrow> Inr transformedNested)))
      else if typeCheck fm = 1 then transformPrimitive H v fm fieldPath
      else if typeCheck fm = 2 \<or> typeCheck fm = 32 then
        (if \<not> typeofObject v \<or> v = JNull then
           Inl (TransformError ''Field should be an object'' fieldPath [] v (Some ''object'')
                  None v (CtxField fm))
         else
           (case (if isNestedObject fm then Inr (nestedFields fm)
                  else transformDtoFilter R (ftype fm)) of
              Inl e \<Rightarrow> Inl e
            | Inr classFilter \<Rightarrow> transform R H v classFilter fieldPath))
      else if typeCheck fm = 4 \<or> typeCheck fm = 16 then
        (if \<not> isArray v then
           Inl (TransformError ''Field should be an array'' fieldPath [] v (Some ''array'')
                  None v (CtxField fm))
         else
           (case mapiE
                   (\<lambda>index item.
                      if item = JUndefined then
                        Inl (TransformError ''Invalid value in array''
                               (fieldPath @ ''['' @ show_nat index @ '']'') [] item
                               (Some ''non-undefined'') None v (CtxField fm))
                      else if item = JNull \<and> nullable fm then Inr JNull
                      else if typeCheck fm = 4 then
                        (case transformDtoFilter R (firstType (ftype fm)) of
                           Inl e \<Rightarrow> Inl e
                         | Inr itemFilter \<Rightarrow>
                             transform R H item itemFilter
                               (fieldPath @ ''['' @ show_nat index @ '']''))
                      else
                        transformPrimitive H item fm
                          (fieldPath @ ''['' @ show_nat index @ '']''))
                   0 (elements v) of
              Inl e \<Rightarrow> Inl e
            | Inr items \<Rightarrow> Inr (JArr items)))
      else if typeCheck fm = 8 then
        (case fenum fm of
           None \<Rightarrow> Inl TypeError
         | Some vs \<Rightarrow>
             if \<not> arrayIncludes vs v then
               Inl (TransformError ''Invalid enum value'' fieldPath [] v (Some ''enum'')
                      (Some vs) v (CtxField fm))
             else Inr v)
      else
        Inl (TransformError ''Unexpected type for field'' fieldPath [] v None None v
               (CtxField fm)))"
  by pat_completeness auto
termination
proof (relation "measure (\<lambda>x. case x of
            Inl (R, H, obj, dtoFilter, dtoName) \<Rightarrow> 3 * size obj + 2
          | Inr (R, H, v, fm, fieldPath) \<Rightarrow> (if typeofObject v then 3 * size v + 3 else 0))",
       goal_cases)
  case 1
  show ?case by simp
next
  case (2 R H obj dtoFilter dtoName k x)
  then show ?case
    using size_elements [of x "materialize obj"] size_materialize [of obj] by simp
next
  case (3 R H obj dtoFilter dtoName x acc key fm present)
  then show ?case
    using size_getProp [of "materialize obj" key] size_materialize [of obj] by auto
next
  case (4 R H v fm fieldPath)
  then show ?case by simp
next
  case (5 R H v fm fieldPath b)
  then show ?case by simp
next
  case (6 R H v fm fieldPath k x b)
  then show ?case
    using size_elements [of x v] by (cases v) simp_all
qed

declare transform.simps [simp del] transformField.simps [simp del]

section \<open>The loop bodies of the engine, by name\<close>

text \<open>
  The body of the loop over \<^verbatim>\<open>Object.entries(filter)\<close> in \<^verbatim>\<open>transform\<close>, by name: \<open>obj\<close> is
  the object after the \<^verbatim>\<open>get\<close> hook, \<open>result\<close> the object under construction.
\<close>

definition transformEntry ::
  "registry \<Rightarrow> host \<Rightarrow> jsval \<Rightarrow> (string \<times> field) list \<Rightarrow> string \<Rightarrow>
   string \<times> field \<Rightarrow> (string \<times> jsval) list \<Rightarrow> err + (string \<times> jsval) list"
where
  "transformEntry R H obj dtoFilter dtoName =
     (\<lambda>(key, value) result.
        case hasOwnProperty obj key of
          Inl e \<Rightarrow> Inl e
        | Inr present \<Rightarrow>
            if \<not> present then
              (if \<not> noCheck value \<and> (required value \<or> isNestedObject value) then
                 Inl (TransformError (''Required field '' @ quoted key @ '' is missing'')
                        dtoName key JUndefined None None obj (CtxFilter dtoFilter))
               else Inr result)
            else if getProp obj key = JUndefined then
              (if \<not> noCheck value \<and> required value then
                 Inl (TransformError (''Required field '' @ quoted key @ '' cannot be undefined'')
                        dtoName key JUndefined None None obj (CtxFilter dtoFilter))
               else Inr result)
            else if getProp obj key = JNull then
              (if noCheck value \<or> nullable value then Inr (assign result key JNull)
               else
                 Inl (TransformError (''Field '' @ quoted key @ '' cannot be null'')
                        dtoName key JNull None None obj (CtxFilter dtoFilter)))
            else
              (case transformField R H (getProp obj key) value (dtoName @ ''.'' @ key) of
                 Inl e \<Rightarrow> Inl e
               | Inr v \<Rightarrow> Inr (assign result key v)))"

text \<open>
  The callback of \<^verbatim>\<open>value.map\<close> in \<^verbatim>\<open>transformField\<close>, by name: the rule for one element of
  an array of classes or of primitives; \<open>v\<close> is the whole array.
\<close>

definition transformItem ::
  "registry \<Rightarrow> host \<Rightarrow> jsval \<Rightarrow> field \<Rightarrow> string \<Rightarrow> nat \<Rightarrow> jsval \<Rightarrow> err + jsval"
where
  "transformItem R H v fm fieldPath =
     (\<lambda>index item.
        if item = JUndefined then
          Inl (TransformError ''Invalid value in array''
                 (fieldPath @ ''['' @ show_nat index @ '']'') [] item
                 (Some ''non-undefined'') None v (CtxField fm))
        else if item = JNull \<and> nullable fm then Inr JNull
        else if typeCheck fm = 4 then
          (case transformDtoFilter R (firstType (ftype fm)) of
             Inl e \<Rightarrow> Inl e
           | Inr itemFilter \<Rightarrow>
               transform R H item itemFilter (fieldPath @ ''['' @ show_nat index @ '']''))
        else transformPrimitive H item fm (fieldPath @ ''['' @ show_nat index @ '']''))"

section \<open>The first revision of the engine\<close>

text \<open>
  The source holds two revisions of the interceptor.  The engine above is the second, the
  defensive one, which the repository's tests run against.  The first revision handles
  every kind of field in a single pass; \<^verbatim>\<open>prepareField\<close>, \<^verbatim>\<open>transformDtoFilter\<close>,
  \<^verbatim>\<open>transformPrimitive\<close> and the type checks are the same text in both.  Its \<^verbatim>\<open>transform\<close>
  has no guard for a property that holds \<^verbatim>\<open>undefined\<close> and demands a missing key only of a
  field that is required and not nullable; its \<^verbatim>\<open>transformField\<close> has no test of the value
  before the recursive call, so that on a text value and a class that declares the key
  \<^verbatim>\<open>0\<close> with its own type the recursion does not end.  The functions of the first revision
  are therefore given with the depth of calls they may still make: \<open>None\<close> is a run that
  needs more depth than that.
\<close>

fun foldO :: "('a \<Rightarrow> 'b \<Rightarrow> ('e + 'b) option) \<Rightarrow> 'a list \<Rightarrow> 'b \<Rightarrow> ('e + 'b) option" where
  "foldO f [] acc = Some (Inr acc)"
| "foldO f (x # xs) acc =
     (case f x acc of
        None \<Rightarrow> None
      | Some (Inl e) \<Rightarrow> Some (Inl e)
      | Some (Inr acc') \<Rightarrow> foldO f xs acc')"

fun mapiO :: "(nat \<Rightarrow> 'a \<Rightarrow> ('e + 'b) option) \<Rightarrow> nat \<Rightarrow> 'a list \<Rightarrow> ('e + 'b list) option" where
  "mapiO f i [] = Some (Inr [])"
| "mapiO f i (x # xs) =
     (case f i x of
        None \<Rightarrow> None
      | Some (Inl e) \<Rightarrow> Some (Inl e)
      | Some (Inr y) \<Rightarrow>
          (case mapiO f (Suc i) xs of
             None \<Rightarrow> None
           | Some (Inl e) \<Rightarrow> Some (Inl e)
           | Some (Inr ys) \<Rightarrow> Some (Inr (y # ys))))"

text \<open>\<^verbatim>\<open>transformEnum\<close> and \<^verbatim>\<open>transformArrayOfPrimitive\<close> of the first revision.\<close>

definition transformEnum1 :: "jsval \<Rightarrow> field \<Rightarrow> string \<Rightarrow> err + jsval" where
  "transformEnum1 v fm fieldPath =
     (if noCheck fm then Inr v
      else
        (case fenum fm of
           None \<Rightarrow> Inl TypeError
         | Some vs \<Rightarrow>
             if \<not> arrayIncludes vs v then
               Inl (TransformError ''Invalid enum value'' fieldPath [] v (Some ''enum'')
                      (Some vs) v (CtxField fm))
             else Inr v))"

definition transformArrayOfPrimitive1 :: "host \<Rightarrow> jsval \<Rightarrow> field \<Rightarrow> string \<Rightarrow> err + jsval" where
  "transformArrayOfPrimitive1 H v fm fieldPath =
     (if \<not> noCheck fm \<and> \<not> isArray v then
        Inl (TransformError ''Field should be an array'' fieldPath [] v (Some ''array'')
               None v (CtxField fm))
      else if isArray v then
        (case mapiE (\<lambda>index item.
                       transformPrimitive H item fm (fieldPath @ ''['' @ show_nat index @ '']''))
                0 (elements v) of
           Inl e \<Rightarrow> Inl e
         | Inr items \<Rightarrow> Inr (JArr items))
      else if noCheck fm then Inr v
      else Inr (JArr []))"

text \<open>
  \<^verbatim>\<open>transform\<close>, \<^verbatim>\<open>transformField\<close> and \<^verbatim>\<open>transformArrayOfClass\<close> of the first revision; the first
  argument is the depth of calls left.
\<close>

fun transform1 ::
  "nat \<Rightarrow> registry \<Rightarrow> host \<Rightarrow> jsval \<Rightarrow> (string \<times> field) list \<Rightarrow> string \<Rightarrow> (err + jsval) option"
and transformField1 ::
  "nat \<Rightarrow> registry \<Rightarrow> host \<Rightarrow> jsval \<Rightarrow> field \<Rightarrow> string \<Rightarrow> (err + jsval) option"
and transformArrayOfClass1 ::
  "nat \<Rightarrow> registry \<Rightarrow> host \<Rightarrow> jsval \<Rightarrow> field \<Rightarrow> string \<Rightarrow> (err + jsval) option"
where
  "transform1 0 R H obj dtoFilter dtoName = None"
| "transform1 (Suc depth) R H obj dtoFilter dtoName =
     (if obj = JUndefined \<or> obj = JNull then Some (Inr JNull)
      else if isArray (materialize obj) then
        (case mapiO (\<lambda>index item. transform1 depth R H item dtoFilter dtoName) 0
                (elements (materialize obj)) of
           None \<Rightarrow> None
         | Some (Inl e) \<Rightarrow> Some (Inl e)
         | Some (Inr items) \<Rightarrow> Some (Inr (JArr items)))
      else
        (case foldO
                (\<lambda>(key, value) result.
                   case hasOwnProperty (materialize obj) key of
                     Inl e \<Rightarrow> Some (Inl e)
                   | Inr present \<Rightarrow>
                       if \<not> present then
                         (if \<not> noCheck value \<and> required value \<and> \<not> nullable value then
                            Some (Inl (TransformError
                                         (''Required field '' @ quoted key @ '' is missing'')
                                         dtoName key JUndefined None None (materialize obj)
                                         (CtxFilter dtoFilter)))
                          else Some (Inr result))
                       else if getProp (materialize obj) key = JNull then
                         (if noCheck value \<or> nullable value then
                            Some (Inr (assign result key JNull))
                          else
                            Some (Inl (TransformError
                                         (''Field '' @ quoted key @ '' cannot be null'')
                                         dtoName key JNull None None (materialize obj)
                                         (CtxFilter dtoFilter))))
                       else
                         (case transformField1 depth R H (getProp (materialize obj) key) value
                                 (dtoName @ ''.'' @ key) of
                            None \<Rightarrow> None
                          | Some (Inl e) \<Rightarrow> Some (Inl e)
                          | Some (Inr v) \<Rightarrow> Some (Inr (assign result key v))))
                dtoFilter [] of
           None \<Rightarrow> None
         | Some (Inl e) \<Rightarrow> Some (Inl e)
         | Some (Inr result) \<Rightarrow> Some (Inr (JObj None result))))"
| "transformField1 0 R H v fm fieldPath = None"
| "transformField1 (Suc depth) R H v fm fieldPath =
     (if typeCheck fm = 1 then Some (transformPrimitive H v fm fieldPath)
      else if typeCheck fm = 2 then
        (case transformDtoFilter R (ftype fm) of
           Inl e \<Rightarrow> Some (Inl e)
         | Inr classFilter \<Rightarrow> transform1 depth R H v classFilter fieldPath)
      else if typeCheck fm = 4 then transformArrayOfClass1 depth R H v fm fieldPath
      else if typeCheck fm = 8 then Some (transformEnum1 v fm fieldPath)
      else if typeCheck fm = 16 then Some (transformArrayOfPrimitive1 H v fm fieldPath)
      else if typeCheck fm = 32 then transform1 depth R H v (nestedFields fm) fieldPath
      else if noCheck fm then Some (Inr v)
      else
        Some (Inl (TransformError ''Unexpected type for field'' fieldPath [] v None None v
                     (CtxField fm))))"
| "transformArrayOfClass1 0 R H v fm fieldPath = None"
| "transformArrayOfClass1 (Suc depth) R H v fm fieldPath =
     (if \<not> noCheck fm \<and> \<not> isArray v then
        Some (Inl (TransformError ''Field should be an array'' fieldPath [] v (Some ''array'')
                     None v (CtxField fm)))
      else
        (case transformDtoFilter R (firstType (ftype fm)) of
           Inl e \<Rightarrow> Some (Inl e)
         | Inr itemFilter \<Rightarrow>
             if isArray v then
               (case mapiO (\<lambda>index item.
                              transform1 depth R H item itemFilter
                                (fieldPath @ ''['' @ show_nat index @ '']''))
                       0 (elements v) of
                  None \<Rightarrow> None
                | Some (Inl e) \<Rightarrow> Some (Inl e)
                | Some (Inr items) \<Rightarrow> Some (Inr (JArr items)))
             else if noCheck fm then Some (Inr v)
             else Some (Inr (JArr []))))"

section \<open>Well-formed filters\<close>

text \<open>
  A filter is well formed when its keys are distinct (the keys of a JavaScript object),
  the \<^verbatim>\<open>typeCheck\<close> mask of every field has the bit of an inline nested structure exactly
  when \<^verbatim>\<open>isNestedObject\<close> is set (the mask is then 32, or 40 for a field that also declares an
  enum), and every inline nested filter in it is well formed.  The filters which
  \<^verbatim>\<open>prepareMetadata\<close> builds are well formed.
\<close>

lemma size_nestedFields:
  "x \<in> set F \<Longrightarrow>
     size_list (size_prod (\<lambda>_. 0) size) (nestedFields (snd x))
       < size_list (size_prod (\<lambda>_. 0) size) F"
proof (induction F)
  case Nil
  then show ?case by simp
next
  case (Cons y F)
  show ?case
  proof (cases "x = y")
    case True
    obtain k fm where y: "y = (k, fm)" by (cases y)
    show ?thesis
      using True y by (cases fm) simp
  next
    case False
    with Cons show ?thesis by auto
  qed
qed

function wf_filter :: "(string \<times> field) list \<Rightarrow> bool" where
  "wf_filter F =
     (distinct (map fst F)
      \<and> (\<forall>x \<in> set F.
            isNestedObject (snd x) = (typeCheck (snd x) = 32 \<or> typeCheck (snd x) = 40)
            \<and> wf_filter (nestedFields (snd x))))"
  by pat_completeness auto
termination
  by (relation "measure (size_list (size_prod (\<lambda>_. 0) size))") (auto simp: size_nestedFields)

declare wf_filter.simps [simp del]

section \<open>Regular inputs, conformant values and deep equality\<close>

fun isPlainRecord :: "jsval \<Rightarrow> bool" where
  "isPlainRecord (JObj None ps) = True"
| "isPlainRecord v = False"

text \<open>
  A regular input of a filter.  A field that is an inline nested structure and is not
  skip-validation is not held with the value \<^verbatim>\<open>undefined\<close>.  An object held for an inline nested
  structure is not an array and has no \<^verbatim>\<open>get\<close> member, and holds none of the required fields
  of the structure with the value \<^verbatim>\<open>undefined\<close>.  So on through the records of classes and of
  inline nested structures and the elements of arrays, as \<^verbatim>\<open>transform\<close> walks them.
\<close>

function regular :: "registry \<Rightarrow> jsval \<Rightarrow> (string \<times> field) list \<Rightarrow> bool"
and regularField :: "registry \<Rightarrow> jsval \<Rightarrow> field \<Rightarrow> bool"
where
  "regular R obj dtoFilter =
     (if obj = JUndefined \<or> obj = JNull then True
      else if isArray (materialize obj) then
        (\<forall>item \<in> set (elements (materialize obj)). regular R item dtoFilter)
      else
        (\<forall>(key, value) \<in> set dtoFilter.
           ownProperty (materialize obj) key \<longrightarrow>
             (if getProp (materialize obj) key = JUndefined
              then \<not> isNestedObject value \<or> noCheck value
              else regularField R (getProp (materialize obj) key) value)))"
| "regularField R v fm =
     (if isNestedObject fm then
        (if typeofObject v \<and> v \<noteq> JNull then
           \<not> isArray v \<and> materialize v = v
           \<and> (\<forall>(key, value) \<in> set (nestedFields fm).
                 ownProperty v key \<and> getProp v key = JUndefined \<longrightarrow> \<not> required value)
           \<and> regular R v (nestedFields fm)
         else True)
      else if typeCheck fm = 2 then
        (if typeofObject v then
           (case transformDtoFilter R (ftype fm) of
              Inl e \<Rightarrow> True
            | Inr classFilter \<Rightarrow> regular R v classFilter)
         else True)
      else if typeCheck fm = 4 then
        (\<forall>item \<in> set (elements v).
           case transformDtoFilter R (firstType (ftype fm)) of
             Inl e \<Rightarrow> True
           | Inr itemFilter \<Rightarrow> regular R item itemFilter)
      else True)"
  by pat_completeness auto
termination
proof (relation "measure (\<lambda>x. case x of
            Inl (R, obj, dtoFilter) \<Rightarrow> 3 * size obj + 2
          | Inr (R, v, fm) \<Rightarrow> (if typeofObject v then 3 * size v + 3 else 0))",
       goal_cases)
  case 1
  show ?case by simp
next
  case (2 R obj dtoFilter item)
  then show ?case
    using size_elements [of item "materialize obj"] size_materialize [of obj] by simp
next
  case (3 R obj dtoFilter x key fm)
  then show ?case
    using size_getProp [of "materialize obj" key] size_materialize [of obj] by auto
next
  case (4 R v fm)
  then show ?case by simp
next
  case (5 R v fm classFilter)
  then show ?case by simp
next
  case (6 R v fm item itemFilter)
  then show ?case
    using size_elements [of item v] by (cases v) simp_all
qed

declare regular.simps [simp del] regularField.simps [simp del]

text \<open>
  An already-conformant value, in the words of the specification: all fields present,
  typed, no extras.  It is a plain record whose keys are those of the schema, and each
  field holds a value typed for its kind: a Scalar one that passes the type check, an Enum
  a member of the declared values, a Record or a NestedStructure a conformant record of
  its schema, a RecordArray or a ScalarArray an array of such values.  Exactly one kind
  applies to a field.  A record that has a property named \<^verbatim>\<open>hasOwnProperty\<close> is not counted:
  the engine cannot read the keys of such a record.
\<close>

function conformant :: "registry \<Rightarrow> jsval \<Rightarrow> (string \<times> field) list \<Rightarrow> bool"
and conformantField :: "registry \<Rightarrow> jsval \<Rightarrow> field \<Rightarrow> bool"
where
  "conformant R obj schema =
     (if \<not> isPlainRecord obj then False
      else
        set (map fst (ownProps obj)) = set (map fst schema)
        \<and> \<not> ownProperty obj ''hasOwnProperty''
        \<and> (\<forall>(key, value) \<in> set schema. conformantField R (getProp obj key) value))"
| "conformantField R v fm =
     (if typeCheck fm = 1 then validatePrimitiveType v (expectedType fm)
      else if typeCheck fm = 8 then
        (case fenum fm of
           None \<Rightarrow> False
         | Some vs \<Rightarrow> v \<noteq> JUndefined \<and> v \<noteq> JNull \<and> arrayIncludes vs v)
      else if typeCheck fm = 2 then
        (if isPlainRecord v then
           (case transformDtoFilter R (ftype fm) of
              Inl e \<Rightarrow> False
            | Inr recordSchema \<Rightarrow> conformant R v recordSchema)
         else False)
      else if typeCheck fm = 32 then
        (if isPlainRecord v then conformant R v (nestedFields fm) else False)
      else if typeCheck fm = 4 then
        isArray v
        \<and> (\<forall>item \<in> set (elements v).
              case transformDtoFilter R (firstType (ftype fm)) of
                Inl e \<Rightarrow> False
              | Inr recordSchema \<Rightarrow> conformant R item recordSchema)
      else if typeCheck fm = 16 then
        isArray v \<and> (\<forall>item \<in> set (elements v). validatePrimitiveType item (expectedType fm))
      else False)"
  by pat_completeness auto
termination
proof (relation "measure (\<lambda>x. case x of
            Inl (R, obj, schema) \<Rightarrow> 3 * size obj + 2
          | Inr (R, v, fm) \<Rightarrow> (if typeofObject v then 3 * size v + 3 else 0))",
       goal_cases)
  case 1
  show ?case by simp
next
  case (2 R obj schema x key fm)
  then have "\<not> isArray obj"
    by (cases obj rule: isPlainRecord.cases) simp_all
  then show ?case
    using size_getProp [of obj key] by auto
next
  case (3 R v fm recordSchema)
  then show ?case by (cases v rule: isPlainRecord.cases) simp_all
next
  case (4 R v fm)
  then show ?case by (cases v rule: isPlainRecord.cases) simp_all
next
  case (5 R v fm item recordSchema)
  then show ?case
    using size_elements [of item v] by (cases v) simp_all
qed

declare conformant.simps [simp del] conformantField.simps [simp del]

text \<open>
  Deep equality of two values: plain records are equal when they have the same keys and
  hold deeply equal values at each key, whatever the order of the keys; arrays when they
  have the same length and deeply equal elements; other values when they are the same.
\<close>

lemma size_getProp_key:
  assumes "isPlainRecord a" and "k \<in> set (map fst (ownProps a))"
  shows "size (getProp a k) < size a"
proof -
  from assms(1) obtain ps where a: "a = JObj None ps"
    by (cases a rule: isPlainRecord.cases) simp_all
  with assms(2) obtain x where x: "map_of ps k = Some x"
    by (cases "map_of ps k") (auto simp: map_of_eq_None_iff)
  from size_map_of [OF x] a x show ?thesis
    by (simp add: getProp_def)
qed

function deepEqual :: "jsval \<Rightarrow> jsval \<Rightarrow> bool" where
  "deepEqual a b =
     (if isPlainRecord a \<and> isPlainRecord b then
        set (map fst (ownProps a)) = set (map fst (ownProps b))
        \<and> (\<forall>k \<in> set (map fst (ownProps a)). deepEqual (getProp a k) (getProp b k))
      else if isArray a \<and> isArray b then
        length (elements a) = length (elements b)
        \<and> (\<forall>(x, y) \<in> set (zip (elements a) (elements b)). deepEqual x y)
      else a = b)"
  by pat_completeness auto
termination
proof (relation "measure (\<lambda>(a, b). size a)", goal_cases)
  case 1
  show ?case by simp
next
  case (2 a b k)
  then show ?case
    using size_getProp_key [of a k] by simp
next
  case (3 a b p x y)
  then have "x \<in> set (elements a)"
    by (auto dest: set_zip_leftD)
  then show ?case
    using size_elements [of x a] by simp
qed

declare deepEqual.simps [simp del]

section \<open>Sample data\<close>

text \<open>
  A host for the closed examples.  It follows ECMAScript on the values the examples
  convert: \<^verbatim>\<open>Number\<close> of a string of decimal digits is its value and of any other non-empty
  string without digits-only content NaN, \<^verbatim>\<open>String\<close> of a natural number is its decimal
  rendering, \<^verbatim>\<open>BigInt\<close> of text that is no integer literal throws, \<^verbatim>\<open>new Date\<close> of such text is
  an invalid date.
\<close>

fun read_nat :: "nat \<Rightarrow> string \<Rightarrow> nat option" where
  "read_nat acc [] = Some acc"
| "read_nat acc (c # cs) =
     (if (48::nat) \<le> of_char c \<and> (of_char c :: nat) \<le> 57
      then read_nat (10 * acc + ((of_char c :: nat) - 48)) cs else None)"

definition sampleNumber :: "jsval \<Rightarrow> jsnum option" where
  "sampleNumber v =
     (case v of
        JNum n \<Rightarrow> Some n
      | JStr s \<Rightarrow> (case read_nat 0 s of Some n \<Rightarrow> Some (Fin (of_nat n)) | None \<Rightarrow> Some NaN)
      | JBool b \<Rightarrow> Some (Fin (if b then 1 else 0))
      | JNull \<Rightarrow> Some (Fin 0)
      | JUndefined \<Rightarrow> Some NaN
      | _ \<Rightarrow> None)"

definition sampleString :: "jsval \<Rightarrow> string option" where
  "sampleString v =
     (case v of
        JStr s \<Rightarrow> Some s
      | JNum (Fin q) \<Rightarrow> (if q = of_nat (nat \<lfloor>q\<rfloor>) then Some (show_nat (nat \<lfloor>q\<rfloor>)) else None)
      | JBool b \<Rightarrow> Some (if b then ''true'' else ''false'')
      | JNull \<Rightarrow> Some ''null''
      | JUndefined \<Rightarrow> Some ''undefined''
      | _ \<Rightarrow> None)"

definition sampleBigInt :: "jsval \<Rightarrow> int option" where
  "sampleBigInt v =
     (case v of
        JBigInt i \<Rightarrow> Some i
      | JStr s \<Rightarrow> (case read_nat 0 s of Some n \<Rightarrow> Some (int n) | None \<Rightarrow> None)
      | JBool b \<Rightarrow> Some (if b then 1 else 0)
      | _ \<Rightarrow> None)"

definition sampleDate :: "jsval \<Rightarrow> int option option" where
  "sampleDate v =
     (case v of
        JDate d \<Rightarrow> Some d
      | JStr s \<Rightarrow> (case read_nat 0 s of Some n \<Rightarrow> None | None \<Rightarrow> Some None)
      | JNull \<Rightarrow> Some (Some 0)
      | JUndefined \<Rightarrow> Some None
      | _ \<Rightarrow> None)"

definition sampleHost :: host where
  "sampleHost =
     \<lparr>toNumber = sampleNumber, toStr = sampleString, toBigInt = sampleBigInt,
      toDate = sampleDate\<rparr>"

text \<open>
  The classes of the examples, after the DTOs of the repository's tests: a user with a
  \<^verbatim>\<open>@NoOut\<close> password and a \<^verbatim>\<open>@NoCheck\<close> note, and an address.
\<close>

definition userMetadata :: "(string \<times> rawfield) list" where
  "userMetadata =
     [(''id'', RawField (TFunc ''Number'') None True False),
      (''name'', RawField (TFunc ''String'') None False False),
      (''password'', RawField (TFunc ''String'') None False False),
      (''note'', RawField (TFunc ''Object'') None True False)]"

definition addressMetadata :: "(string \<times> rawfield) list" where
  "addressMetadata =
     [(''street'', RawField (TFunc ''String'') None False False),
      (''city'', RawField (TFunc ''String'') None True False)]"

definition sampleRegistry :: registry where
  "sampleRegistry =
     \<lparr>factory = (\<lambda>c. if c = ''UserDto'' then Some userMetadata
                      else if c = ''AddressDto'' then Some addressMetadata else None),
      classNoCheck = (\<lambda>c. False),
      classNoCheckPrimitives = (\<lambda>c. False),
      propNoCheck = (\<lambda>c k. c = ''UserDto'' \<and> k = ''note''),
      propNoOut = (\<lambda>c k. c = ''UserDto'' \<and> k = ''password'')\<rparr>"

definition userFilter :: "(string \<times> field) list" where
  "userFilter = prepareMetadata sampleRegistry userMetadata ''UserDto'' False False"

text \<open>Single prepared fields, as \<^verbatim>\<open>prepareField\<close> builds them.\<close>

definition scalarField :: "string \<Rightarrow> bool \<Rightarrow> bool \<Rightarrow> bool \<Rightarrow> field" where
  "scalarField ctor req nul nc =
     prepareField sampleRegistry (RawField (TFunc ctor) None req nul) nc False"

definition nestedField :: "(string \<times> rawfield) list \<Rightarrow> bool \<Rightarrow> bool \<Rightarrow> bool \<Rightarrow> field" where
  "nestedField m req nul nc =
     prepareField sampleRegistry (RawField (TInline m) None req nul) nc False"

definition arrayField :: "rawtype \<Rightarrow> bool \<Rightarrow> bool \<Rightarrow> bool \<Rightarrow> field" where
  "arrayField t req nul nc =
     prepareField sampleRegistry (RawField (TArray [t]) None req nul) nc False"

definition enumField :: "jsval list \<Rightarrow> bool \<Rightarrow> bool \<Rightarrow> bool \<Rightarrow> field" where
  "enumField vs req nul nc =
     prepareField sampleRegistry (RawField TUndefined (Some vs) req nul) nc False"

text \<open>
  Sample fields and filters: an identifier, an inline address without the \<^verbatim>\<open>required\<close>
  flag, an array of addresses, an inline address with a numeric code, a profile with an
  optional inline address, an inline structure that declares the key \<^verbatim>\<open>0\<close>, and an inline
  structure with a required text in a class marked \<^verbatim>\<open>@NoCheckPrimitives\<close>.
\<close>

definition idField :: "string \<times> field" where
  "idField = (''id'', scalarField ''Number'' True False False)"

definition inlineAddress :: field where
  "inlineAddress =
     nestedField [(''city'', RawField (TFunc ''String'') None False True)] False False False"

definition addressArray :: field where
  "addressArray = arrayField (TClass ''AddressDto'') True False False"

definition zipAddress :: field where
  "zipAddress =
     nestedField [(''city'', RawField (TFunc ''String'') None True False),
                  (''zipCode'', RawField (TFunc ''Number'') None False False)] False False False"

definition profileFilter :: "(string \<times> field) list" where
  "profileFilter =
     prepareMetadata sampleRegistry
       [(''id'', RawField (TFunc ''Number'') None True False),
        (''address'',
         RawField (TInline [(''city'', RawField (TFunc ''String'') None False True)])
           None False False)]
       ''ProfileDto'' False False"

definition pairFilter :: "(string \<times> field) list" where
  "pairFilter =
     prepareMetadata sampleRegistry
       [(''pair'',
         RawField (TInline [(''0'', RawField (TFunc ''Number'') None False False)])
           None True False)]
       ''PairDto'' False False"

definition tagFilter :: "(string \<times> field) list" where
  "tagFilter =
     prepareMetadata sampleRegistry
       [(''meta'',
         RawField (TInline [(''tag'', RawField (TFunc ''String'') None True False)])
           None True False)]
       ''TagDto'' False True"

text \<open>
  An order with an address of the class \<^verbatim>\<open>AddressDto\<close>, an array of texts and an inline
  position; and an address held behind a \<^verbatim>\<open>get\<close> member, as an ORM record holds it.
\<close>

definition orderMetadata :: "(string \<times> rawfield) list" where
  "orderMetadata =
     [(''id'', RawField (TFunc ''Number'') None True False),
      (''address'', RawField (TClass ''AddressDto'') None True False),
      (''tags'', RawField (TArray [TFunc ''String'']) None False False),
      (''geo'',
       RawField (TInline [(''lat'', RawField (TFunc ''Number'') None True False)])
         None True False)]"

definition storedAddress :: jsval where
  "storedAddress = JObj (Some (JObj None [(''city'', JNull)])) []"

section \<open>Facts about the engine\<close>

lemma transform_unfold:
  "transform R H obj dtoFilter dtoName =
     (if obj = JUndefined \<or> obj = JNull then Inr JNull
      else if isArray (materialize obj) then
        (case mapiE (\<lambda>index item. transform R H item dtoFilter dtoName) 0
                (elements (materialize obj)) of
           Inl e \<Rightarrow> Inl e
         | Inr items \<Rightarrow> Inr (JArr items))
      else
        (case foldE (transformEntry R H (materialize obj) dtoFilter dtoName) dtoFilter [] of
           Inl e \<Rightarrow> Inl e
         | Inr result \<Rightarrow> Inr (JObj None result)))"
  unfolding transformEntry_def by (rule transform.simps)

lemma transform_record:
  "transform R H (JObj None ps) dtoFilter dtoName =
     (case foldE (transformEntry R H (JObj None ps) dtoFilter dtoName) dtoFilter [] of
        Inl e \<Rightarrow> Inl e
      | Inr result \<Rightarrow> Inr (JObj None result))"
  by (subst transform_unfold) simp

subsection \<open>The root value\<close>

text \<open>
  C10: for every filter, \<^verbatim>\<open>transform\<close> of the root value \<^verbatim>\<open>undefined\<close> returns \<^verbatim>\<open>null\<close>, as it
  does for a \<^verbatim>\<open>null\<close> root, and raises nothing, whatever fields the filter requires.
\<close>

theorem transform_absent_root:
  "transform R H JUndefined dtoFilter dtoName = Inr JNull
   \<and> transform R H JNull dtoFilter dtoName = Inr JNull"
  by (simp add: transform.simps [of R H JUndefined] transform.simps [of R H JNull])

theorem transform_absent_root_witness:
  "transform sampleRegistry sampleHost JUndefined userFilter ''UserDto'' = Inr JNull
   \<and> transform sampleRegistry sampleHost JNull userFilter ''UserDto'' = Inr JNull
   \<and> map_option required (map_of userFilter ''id'') = Some True"
proof -
  have "map_option required (map_of userFilter ''id'') = Some True"
    by code_simp
  with transform_absent_root [of sampleRegistry sampleHost userFilter "''UserDto''"]
  show ?thesis by simp
qed

subsection \<open>The primitive coercer\<close>

text \<open>
  C9: for a field of boolean kind that is not skip-validation, \<^verbatim>\<open>transformPrimitive\<close> never
  raises: a boolean is returned as it is, and any other value is replaced by its
  truthiness \<^verbatim>\<open>Boolean(value)\<close>, which passes the second check.
\<close>

theorem boolean_scalar_never_raises:
  assumes "expectedType fm = Some ''boolean''" and "\<not> noCheck fm"
  shows "transformPrimitive H v fm fieldPath =
           Inr (if isBoolean v then v else JBool (toBoolean v))"
  using assms
  by (simp add: transformPrimitive_def validatePrimitiveType_def coerceToPrimitiveType_def)

theorem boolean_scalar_never_raises_witness:
  "transformPrimitive sampleHost (JNum (Fin 1)) (scalarField ''Boolean'' True False False)
     ''Flags.on'' = Inr (JBool True)
   \<and> transformPrimitive sampleHost (JStr []) (scalarField ''Boolean'' True False False)
     ''Flags.on'' = Inr (JBool False)"
proof -
  have a: "expectedType (scalarField ''Boolean'' True False False) = Some ''boolean''"
    by code_simp
  have b: "\<not> noCheck (scalarField ''Boolean'' True False False)"
    by code_simp
  show ?thesis
    using boolean_scalar_never_raises [OF a b, of sampleHost "JNum (Fin 1)" "''Flags.on''"]
      boolean_scalar_never_raises [OF a b, of sampleHost "JStr []" "''Flags.on''"]
    by simp
qed



subsection \<open>The loop over the filter\<close>

lemma foldE_append:
  "foldE f (xs @ ys) acc = (case foldE f xs acc of Inl e \<Rightarrow> Inl e | Inr a \<Rightarrow> foldE f ys a)"
  by (induction xs arbitrary: acc) (auto split: sum.splits)

lemma map_fst_assign:
  "map fst (assign ps k v) =
     (if k \<in> set (map fst ps) then map fst ps else map fst ps @ [k])"
  by (induction ps) (auto simp: rev_image_eqI)

lemma subseq_keys:
  assumes "subseq xs ys"
  shows "set xs \<subseteq> set ys" and "distinct ys \<Longrightarrow> distinct xs"
proof -
  show "set xs \<subseteq> set ys"
    using assms by (auto dest: list_emb_set)
  show "distinct ys \<Longrightarrow> distinct xs"
    using assms subseqs_distinctD [of xs ys] by simp
qed

lemma foldE_keys:
  assumes "\<And>x acc r. x \<in> set fs \<Longrightarrow> body x acc = Inr r \<Longrightarrow>
             r = acc \<or> (\<exists>v. r = assign acc (fst x) v)"
    and "foldE body fs acc = Inr r"
    and "distinct (map fst fs)"
    and "set (map fst fs) \<inter> set (map fst acc) = {}"
  shows "\<exists>ks. map fst r = map fst acc @ ks \<and> subseq ks (map fst fs)"
  using assms
proof (induction fs arbitrary: acc)
  case Nil
  then show ?case by simp
next
  case (Cons x xs)
  from Cons.prems(2) obtain acc' where step: "body x acc = Inr acc'"
    and rest: "foldE body xs acc' = Inr r"
    by (auto split: sum.splits)
  from Cons.prems(1) [OF _ step] have shape: "acc' = acc \<or> (\<exists>v. acc' = assign acc (fst x) v)"
    by simp
  have fresh: "fst x \<notin> set (map fst acc)" "fst x \<notin> set (map fst xs)"
    using Cons.prems(3,4) by auto
  have keys: "map fst acc' = map fst acc \<or> map fst acc' = map fst acc @ [fst x]"
    using shape fresh(1) by (auto simp: map_fst_assign)
  have disj: "set (map fst xs) \<inter> set (map fst acc') = {}"
  proof -
    have "set (map fst acc') \<subseteq> insert (fst x) (set (map fst acc))"
      using keys by (auto simp del: set_map)
    then show ?thesis
      using Cons.prems(4) fresh(2) by (auto simp del: set_map)
  qed
  have "\<exists>ks. map fst r = map fst acc' @ ks \<and> subseq ks (map fst xs)"
  proof (rule Cons.IH [OF _ rest _ disj])
    show "\<And>y a s. y \<in> set xs \<Longrightarrow> body y a = Inr s \<Longrightarrow>
            s = a \<or> (\<exists>v. s = assign a (fst y) v)"
      using Cons.prems(1) by simp
    show "distinct (map fst xs)"
      using Cons.prems(3) by simp
  qed
  then obtain ks where ks: "map fst r = map fst acc' @ ks" "subseq ks (map fst xs)"
    by blast
  from keys show ?case
  proof
    assume "map fst acc' = map fst acc"
    with ks show ?thesis by (auto intro: subseq_Cons')
  next
    assume "map fst acc' = map fst acc @ [fst x]"
    with ks have "map fst r = map fst acc @ (fst x # ks)" "subseq (fst x # ks) (map fst (x # xs))"
      by simp_all
    then show ?thesis by blast
  qed
qed

lemma transformEntry_shape:
  "transformEntry R H obj dtoFilter dtoName x acc = Inr r \<Longrightarrow>
     r = acc \<or> (\<exists>v. r = assign acc (fst x) v)"
  by (cases x) (auto simp: transformEntry_def split: if_splits sum.splits)

lemma prepareEntries_keys:
  assumes "distinct (map fst m)" and "set (map fst m) \<inter> set (map fst acc) = {}"
  shows "map fst (prepareEntries R m cls cnc cncp acc) =
           map fst acc @ filter (\<lambda>k. \<not> propNoOut R cls k) (map fst m)"
  using assms
proof (induction m arbitrary: acc)
  case Nil
  then show ?case by simp
next
  case (Cons x m)
  obtain key v where x: "x = (key, v)" by (cases x)
  have fresh: "key \<notin> set (map fst acc)" "key \<notin> set (map fst m)"
    using Cons.prems x by auto
  show ?case
  proof (cases "propNoOut R cls key")
    case True
    with Cons x show ?thesis by auto
  next
    case False
    let ?acc = "assign acc key (prepareField R v (cnc \<or> propNoCheck R cls key) cncp)"
    have k: "map fst ?acc = map fst acc @ [key]"
      using fresh(1) by (simp add: map_fst_assign)
    have "set (map fst m) \<inter> set (map fst ?acc) = {}"
      unfolding k using Cons.prems(2) fresh(2) x by (auto simp del: set_map)
    with Cons.IH [of ?acc] Cons.prems(1) have
      "map fst (prepareEntries R m cls cnc cncp ?acc) =
         map fst ?acc @ filter (\<lambda>k. \<not> propNoOut R cls k) (map fst m)"
      by simp
    with False x k show ?thesis by simp
  qed
qed

text \<open>
  C1: for the filter prepared from the metadata of a class and a plain record as input,
  the result of \<^verbatim>\<open>transform\<close> is a record whose keys are keys of the metadata that are not
  \<^verbatim>\<open>@NoOut\<close>, each at most once and in the order of the metadata.  So a key of the input
  that the metadata does not declare, and a key that is output-excluded, is not a key of
  the output.
\<close>

theorem transform_output_keys:
  assumes "distinct (map fst metadata)"
    and "transform R H (JObj None ps) (prepareMetadata R metadata cls cnc cncp) dtoName = Inr out"
  shows "\<exists>result. out = JObj None result
           \<and> subseq (map fst result) (filter (\<lambda>k. \<not> propNoOut R cls k) (map fst metadata))
           \<and> distinct (map fst result)
           \<and> (\<forall>k. k \<in> fst ` set result \<longrightarrow> k \<in> fst ` set metadata \<and> \<not> propNoOut R cls k)"
proof -
  let ?filter = "prepareMetadata R metadata cls cnc cncp"
  let ?keys = "filter (\<lambda>k. \<not> propNoOut R cls k) (map fst metadata)"
  have keys: "map fst ?filter = ?keys"
    using prepareEntries_keys [OF assms(1), of "[]" R cls cnc cncp]
    by (simp add: prepareMetadata_def)
  from assms(2) obtain result where out: "out = JObj None result"
    and loop: "foldE (transformEntry R H (JObj None ps) ?filter dtoName) ?filter [] = Inr result"
    by (auto simp: transform_record split: sum.splits)
  have "distinct (map fst ?filter)"
    using assms(1) by (simp add: keys)
  with foldE_keys [OF transformEntry_shape loop]
  obtain ks where "map fst result = ks" "subseq ks (map fst ?filter)"
    by auto
  then have sub: "subseq (map fst result) ?keys"
    by (simp add: keys)
  have dist: "distinct (map fst result)"
    using subseq_keys(2) [OF sub] assms(1) by simp
  have "set (map fst result) \<subseteq> set ?keys"
    using sub by (rule subseq_keys(1))
  then have "\<forall>k. k \<in> fst ` set result \<longrightarrow> k \<in> fst ` set metadata \<and> \<not> propNoOut R cls k"
    by auto
  with out sub dist show ?thesis by blast
qed

theorem transform_output_keys_witness:
  "distinct (map fst userMetadata)
   \<and> transform sampleRegistry sampleHost
         (JObj None [(''id'', JNum (Fin 1)), (''name'', JStr ''John''),
                     (''password'', JStr ''secret''), (''extra'', JStr ''field''),
                     (''note'', JNull)])
         userFilter ''UserDto''
       = Inr (JObj None [(''id'', JNum (Fin 1)), (''name'', JStr ''John''), (''note'', JNull)])
   \<and> subseq [''id'', ''name'', ''note'']
         (filter (\<lambda>k. \<not> propNoOut sampleRegistry ''UserDto'' k) (map fst userMetadata))
   \<and> propNoOut sampleRegistry ''UserDto'' ''password''
   \<and> ''extra'' \<notin> fst ` set userMetadata"
proof -
  let ?ps = "[(''id'', JNum (Fin 1)), (''name'', JStr ''John''),
              (''password'', JStr ''secret''), (''extra'', JStr ''field''), (''note'', JNull)]"
  let ?out = "[(''id'', JNum (Fin 1)), (''name'', JStr ''John''), (''note'', JNull)]"
  have d: "distinct (map fst userMetadata)"
    by code_simp
  have ev: "transform sampleRegistry sampleHost (JObj None ?ps) userFilter ''UserDto''
              = Inr (JObj None ?out)"
    by code_simp
  have no: "propNoOut sampleRegistry ''UserDto'' ''password''"
    by code_simp
  have ex: "''extra'' \<notin> fst ` set userMetadata"
    by code_simp
  from transform_output_keys [OF d ev [unfolded userFilter_def]]
  have "subseq (map fst ?out)
          (filter (\<lambda>k. \<not> propNoOut sampleRegistry ''UserDto'' k) (map fst userMetadata))"
    by auto
  with d ev no ex show ?thesis by simp
qed

subsection \<open>One field of the filter\<close>

lemma hasOwnProperty_record:
  "map_of ps ''hasOwnProperty'' = None \<Longrightarrow>
     hasOwnProperty (JObj h ps) key = Inr (map_of ps key \<noteq> None)"
  by (simp add: hasOwnProperty_def ownProperty_def)

lemma hasOwnProperty_shadowed:
  "map_of ps ''hasOwnProperty'' = Some x \<Longrightarrow> hasOwnProperty (JObj h ps) key = Inl TypeError"
  by (simp add: hasOwnProperty_def ownProperty_def)

lemma transformEntry_ctx:
  "(transformEntry R H obj F dtoName x acc = Inr r)
     = (transformEntry R H obj F' dtoName x acc = Inr r)"
  by (cases x) (auto simp: transformEntry_def split: sum.splits if_splits)

lemma foldE_ctx:
  "(foldE (transformEntry R H obj F dtoName) fs acc = Inr r)
     = (foldE (transformEntry R H obj F' dtoName) fs acc = Inr r)"
proof (induction fs arbitrary: acc)
  case Nil
  show ?case by simp
next
  case (Cons x xs)
  show ?case
  proof (cases "transformEntry R H obj F dtoName x acc")
    case (Inl e)
    then have "\<And>a. transformEntry R H obj F' dtoName x acc \<noteq> Inr a"
      using transformEntry_ctx [of R H obj F' dtoName x acc _ F] by auto
    with Inl show ?thesis by (auto split: sum.splits)
  next
    case (Inr a)
    then have "transformEntry R H obj F' dtoName x acc = Inr a"
      using transformEntry_ctx [of R H obj F dtoName x acc a F'] by simp
    with Inr Cons.IH [of a] show ?thesis by simp
  qed
qed

lemma transform_record_iff:
  "(transform R H (JObj None ps) F dtoName = Inr out)
     = (\<exists>result. out = JObj None result
          \<and> foldE (transformEntry R H (JObj None ps) F' dtoName) F [] = Inr result)"
proof -
  have "(transform R H (JObj None ps) F dtoName = Inr out)
     = (\<exists>result. out = JObj None result
          \<and> foldE (transformEntry R H (JObj None ps) F dtoName) F [] = Inr result)"
    by (auto simp: transform_record split: sum.splits)
  then show ?thesis
    using foldE_ctx [of R H "JObj None ps" F dtoName F "[]" _ F'] by simp
qed

lemma transform_split:
  "transform R H (JObj None ps) (pre @ x # post) dtoName =
     (case foldE (transformEntry R H (JObj None ps) (pre @ x # post) dtoName) pre [] of
        Inl e \<Rightarrow> Inl e
      | Inr a \<Rightarrow>
          (case transformEntry R H (JObj None ps) (pre @ x # post) dtoName x a of
             Inl e \<Rightarrow> Inl e
           | Inr a' \<Rightarrow>
               (case foldE (transformEntry R H (JObj None ps) (pre @ x # post) dtoName) post a' of
                  Inl e \<Rightarrow> Inl e
                | Inr result \<Rightarrow> Inr (JObj None result))))"
  by (simp add: transform_record foldE_append split: sum.splits)

lemma entry_missing:
  assumes "map_of ps key = None" and "map_of ps ''hasOwnProperty'' = None"
  shows "transformEntry R H (JObj None ps) F dtoName (key, fm) acc =
           (if \<not> noCheck fm \<and> (required fm \<or> isNestedObject fm) then
              Inl (TransformError (''Required field '' @ quoted key @ '' is missing'')
                     dtoName key JUndefined None None (JObj None ps) (CtxFilter F))
            else Inr acc)"
  using assms by (simp add: transformEntry_def hasOwnProperty_record)

lemma entry_undefined:
  assumes "map_of ps key = Some JUndefined" and "map_of ps ''hasOwnProperty'' = None"
  shows "transformEntry R H (JObj None ps) F dtoName (key, fm) acc =
           (if \<not> noCheck fm \<and> required fm then
              Inl (TransformError (''Required field '' @ quoted key @ '' cannot be undefined'')
                     dtoName key JUndefined None None (JObj None ps) (CtxFilter F))
            else Inr acc)"
  using assms by (simp add: transformEntry_def hasOwnProperty_record getProp_def)

lemma entry_null:
  assumes "map_of ps key = Some JNull" and "map_of ps ''hasOwnProperty'' = None"
  shows "transformEntry R H (JObj None ps) F dtoName (key, fm) acc =
           (if noCheck fm \<or> nullable fm then Inr (assign acc key JNull)
            else
              Inl (TransformError (''Field '' @ quoted key @ '' cannot be null'')
                     dtoName key JNull None None (JObj None ps) (CtxFilter F)))"
  using assms by (simp add: transformEntry_def hasOwnProperty_record getProp_def)

lemma entry_value:
  assumes "map_of ps key = Some v" and "v \<noteq> JUndefined" and "v \<noteq> JNull" and "map_of ps ''hasOwnProperty'' = None"
  shows "transformEntry R H (JObj None ps) F dtoName (key, fm) acc =
           (case transformField R H v fm (dtoName @ ''.'' @ key) of
              Inl e \<Rightarrow> Inl e
            | Inr v' \<Rightarrow> Inr (assign acc key v'))"
  using assms by (simp add: transformEntry_def hasOwnProperty_record getProp_def)

lemma entry_shadowed:
  assumes "map_of ps ''hasOwnProperty'' = Some x"
  shows "transformEntry R H (JObj None ps) F dtoName (key, fm) acc = Inl TypeError"
  using assms by (simp add: transformEntry_def hasOwnProperty_shadowed)

lemma transform_shadowed:
  assumes "map_of ps ''hasOwnProperty'' = Some x" and "F \<noteq> []"
  shows "transform R H (JObj None ps) F dtoName = Inl TypeError"
proof -
  from assms(2) obtain key fm fs where F: "F = (key, fm) # fs"
    by (cases F) auto
  show ?thesis
    unfolding F using entry_shadowed [OF assms(1)] by (simp add: transform_record)
qed

lemma transform_skip_entry:
  assumes "\<And>acc. transformEntry R H (JObj None ps) (pre @ x # post) dtoName x acc = Inr acc"
  shows "(transform R H (JObj None ps) (pre @ x # post) dtoName = Inr out)
           = (transform R H (JObj None ps) (pre @ post) dtoName = Inr out)"
proof -
  let ?F = "pre @ x # post"
  let ?body = "transformEntry R H (JObj None ps) ?F dtoName"
  have "foldE ?body ?F [] = foldE ?body (pre @ post) []"
    using assms by (simp add: foldE_append split: sum.splits)
  then show ?thesis
    using transform_record_iff [of R H ps ?F dtoName out ?F]
      transform_record_iff [of R H ps "pre @ post" dtoName out ?F]
    by simp
qed

lemma transform_raise_entry:
  assumes "\<And>acc. transformEntry R H (JObj None ps) (pre @ x # post) dtoName x acc = Inl e"
  shows "isl (transform R H (JObj None ps) (pre @ x # post) dtoName)"
    and "transform R H (JObj None ps) pre dtoName = Inr r \<Longrightarrow>
           transform R H (JObj None ps) (pre @ x # post) dtoName = Inl e"
proof -
  show "isl (transform R H (JObj None ps) (pre @ x # post) dtoName)"
    using assms by (simp add: transform_split split: sum.splits)
  assume "transform R H (JObj None ps) pre dtoName = Inr r"
  then obtain a where
    "foldE (transformEntry R H (JObj None ps) (pre @ x # post) dtoName) pre [] = Inr a"
    using transform_record_iff [of R H ps pre dtoName r "pre @ x # post"] by blast
  then show "transform R H (JObj None ps) (pre @ x # post) dtoName = Inl e"
    using assms by (simp add: transform_split)
qed

lemma transform_last_entry:
  assumes "transform R H (JObj None ps) pre dtoName = Inr (JObj None result)"
    and "transformEntry R H (JObj None ps) (pre @ [x]) dtoName x result = Inr result'"
  shows "transform R H (JObj None ps) (pre @ [x]) dtoName = Inr (JObj None result')"
proof -
  have "foldE (transformEntry R H (JObj None ps) (pre @ [x]) dtoName) pre [] = Inr result"
    using assms(1) transform_record_iff [of R H ps pre dtoName "JObj None result" "pre @ [x]"]
    by simp
  with assms(2) show ?thesis
    by (simp add: transform_split)
qed

lemma transform_keys_subseq:
  assumes "distinct (map fst F)"
    and "transform R H (JObj None ps) F dtoName = Inr (JObj None result)"
  shows "subseq (map fst result) (map fst F)"
proof -
  from assms(2) have "foldE (transformEntry R H (JObj None ps) F dtoName) F [] = Inr result"
    using transform_record_iff [of R H ps F dtoName "JObj None result" F] by simp
  from foldE_keys [OF transformEntry_shape this] assms(1) show ?thesis
    by auto
qed

text \<open>
  C5: for a field that is not skip-validation and whose key the input record holds with
  the value \<^verbatim>\<open>undefined\<close>.  When the record has no own property named \<^verbatim>\<open>hasOwnProperty\<close>:
  if the field is required, \<^verbatim>\<open>transform\<close> raises, and when the fields before it pass, the
  error is \<^verbatim>\<open>Required field '<key>' cannot be undefined\<close>; if the field is not required, it
  raises nothing and contributes nothing: the result is the one of the filter without the
  field, so the key is not in the output.  When the record has an own property named
  \<^verbatim>\<open>hasOwnProperty\<close>, the call \<^verbatim>\<open>obj.hasOwnProperty(key)\<close> throws and \<^verbatim>\<open>transform\<close> raises a
  \<^verbatim>\<open>TypeError\<close>, whether the field is required or not.
\<close>

theorem undefined_field:
  assumes "map_of ps key = Some JUndefined" and "\<not> noCheck fm"
  shows "(map_of ps ''hasOwnProperty'' = None \<longrightarrow>
            (required fm \<longrightarrow>
               isl (transform R H (JObj None ps) (pre @ (key, fm) # post) dtoName)
               \<and> (\<forall>r. transform R H (JObj None ps) pre dtoName = Inr r \<longrightarrow>
                     transform R H (JObj None ps) (pre @ (key, fm) # post) dtoName =
                       Inl (TransformError
                              (''Required field '' @ quoted key @ '' cannot be undefined'')
                              dtoName key JUndefined None None (JObj None ps)
                              (CtxFilter (pre @ (key, fm) # post)))))
          \<and> (\<not> required fm \<longrightarrow>
               (\<forall>out. (transform R H (JObj None ps) (pre @ (key, fm) # post) dtoName = Inr out)
                     = (transform R H (JObj None ps) (pre @ post) dtoName = Inr out))
               \<and> (\<forall>result. distinct (map fst (pre @ (key, fm) # post))
                     \<and> transform R H (JObj None ps) (pre @ (key, fm) # post) dtoName
                         = Inr (JObj None result) \<longrightarrow>
                     key \<notin> fst ` set result)))
       \<and> (\<forall>x. map_of ps ''hasOwnProperty'' = Some x \<longrightarrow>
            transform R H (JObj None ps) (pre @ (key, fm) # post) dtoName = Inl TypeError)"
proof (intro conjI impI allI)
  assume plain: "map_of ps ''hasOwnProperty'' = None" and req: "required fm"
  let ?e = "TransformError (''Required field '' @ quoted key @ '' cannot be undefined'')
              dtoName key JUndefined None None (JObj None ps)
              (CtxFilter (pre @ (key, fm) # post))"
  have step: "\<And>acc. transformEntry R H (JObj None ps) (pre @ (key, fm) # post) dtoName
                       (key, fm) acc = Inl ?e"
    using assms req plain by (simp add: entry_undefined)
  show "isl (transform R H (JObj None ps) (pre @ (key, fm) # post) dtoName)"
    by (rule transform_raise_entry(1) [OF step])
  fix r
  assume "transform R H (JObj None ps) pre dtoName = Inr r"
  then show "transform R H (JObj None ps) (pre @ (key, fm) # post) dtoName = Inl ?e"
    by (rule transform_raise_entry(2) [OF step])
next
  assume plain: "map_of ps ''hasOwnProperty'' = None" and opt: "\<not> required fm"
  have step: "\<And>acc. transformEntry R H (JObj None ps) (pre @ (key, fm) # post) dtoName
                       (key, fm) acc = Inr acc"
    using assms opt plain by (simp add: entry_undefined)
  show same: "\<And>out. (transform R H (JObj None ps) (pre @ (key, fm) # post) dtoName = Inr out)
                     = (transform R H (JObj None ps) (pre @ post) dtoName = Inr out)"
    by (rule transform_skip_entry [OF step])
  fix result
  assume a: "distinct (map fst (pre @ (key, fm) # post))
             \<and> transform R H (JObj None ps) (pre @ (key, fm) # post) dtoName
                 = Inr (JObj None result)"
  then have "transform R H (JObj None ps) (pre @ post) dtoName = Inr (JObj None result)"
    using same by simp
  moreover from a have d: "distinct (map fst (pre @ post))" "key \<notin> set (map fst (pre @ post))"
    by auto
  ultimately have "set (map fst result) \<subseteq> set (map fst (pre @ post))"
    using transform_keys_subseq subseq_keys(1) by blast
  with d(2) show "key \<notin> fst ` set result"
    by auto
next
  fix x
  assume "map_of ps ''hasOwnProperty'' = Some x"
  then show "transform R H (JObj None ps) (pre @ (key, fm) # post) dtoName = Inl TypeError"
    by (rule transform_shadowed) simp
qed

theorem undefined_field_witness:
  "transform sampleRegistry sampleHost (JObj None [(''id'', JNum (Fin 1)), (''name'', JUndefined)])
     [idField, (''name'', scalarField ''String'' True False False)] ''UserDto''
     = Inl (TransformError (''Required field '' @ quoted ''name'' @ '' cannot be undefined'')
              ''UserDto'' ''name'' JUndefined None None
              (JObj None [(''id'', JNum (Fin 1)), (''name'', JUndefined)])
              (CtxFilter [idField, (''name'', scalarField ''String'' True False False)]))
   \<and> transform sampleRegistry sampleHost (JObj None [(''id'', JNum (Fin 1)), (''name'', JUndefined)])
     [idField, (''name'', scalarField ''String'' False False False)] ''UserDto''
     = Inr (JObj None [(''id'', JNum (Fin 1))])
   \<and> transform sampleRegistry sampleHost
       (JObj None [(''hasOwnProperty'', JBool True), (''id'', JNum (Fin 1)), (''name'', JUndefined)])
       [idField, (''name'', scalarField ''String'' False False False)] ''UserDto''
     = Inl TypeError"
proof -
  let ?ps = "[(''id'', JNum (Fin 1)), (''name'', JUndefined)]"
  let ?qs = "[(''hasOwnProperty'', JBool True), (''id'', JNum (Fin 1)), (''name'', JUndefined)]"
  let ?req = "scalarField ''String'' True False False"
  let ?opt = "scalarField ''String'' False False False"
  have u: "map_of ?ps ''name'' = Some JUndefined" "map_of ?qs ''name'' = Some JUndefined"
    by simp_all
  have h: "map_of ?ps ''hasOwnProperty'' = None" "map_of ?qs ''hasOwnProperty'' = Some (JBool True)"
    by simp_all
  have f: "\<not> noCheck ?req" "required ?req" "\<not> noCheck ?opt" "\<not> required ?opt"
    by code_simp+
  have pre: "transform sampleRegistry sampleHost (JObj None ?ps) [idField] ''UserDto''
               = Inr (JObj None [(''id'', JNum (Fin 1))])"
    by code_simp
  have 1: "transform sampleRegistry sampleHost (JObj None ?ps) [idField, (''name'', ?req)] ''UserDto''
     = Inl (TransformError (''Required field '' @ quoted ''name'' @ '' cannot be undefined'')
              ''UserDto'' ''name'' JUndefined None None (JObj None ?ps)
              (CtxFilter [idField, (''name'', ?req)]))"
    using undefined_field [OF u(1) f(1), of sampleRegistry sampleHost "[idField]" "[]" "''UserDto''"]
      f(2) pre h(1) by simp
  have 2: "transform sampleRegistry sampleHost (JObj None ?ps) [idField, (''name'', ?opt)] ''UserDto''
     = Inr (JObj None [(''id'', JNum (Fin 1))])"
    using undefined_field [OF u(1) f(3), of sampleRegistry sampleHost "[idField]" "[]" "''UserDto''"]
      f(4) pre h(1) by simp
  have 3: "transform sampleRegistry sampleHost (JObj None ?qs) [idField, (''name'', ?opt)] ''UserDto''
     = Inl TypeError"
    using undefined_field [OF u(2) f(3), of sampleRegistry sampleHost "[idField]" "[]" "''UserDto''"]
      h(2) by simp
  from 1 2 3 show ?thesis by blast
qed

text \<open>
  C3, as the code has it: for a field whose key the input record does not hold, the
  record having no own property named \<^verbatim>\<open>hasOwnProperty\<close>.  \<^verbatim>\<open>transform\<close> raises
  \<^verbatim>\<open>Required field '<key>' is missing\<close> exactly when the field is not skip-validation and is
  required or is an inline nested structure (when the fields before it pass, that error is
  the result).  In every other case the field raises nothing and contributes nothing: the
  result is the one of the filter without the field.
\<close>

theorem missing_field:
  assumes "map_of ps key = None" and "map_of ps ''hasOwnProperty'' = None"
  shows "(\<not> noCheck fm \<and> (required fm \<or> isNestedObject fm) \<longrightarrow>
            isl (transform R H (JObj None ps) (pre @ (key, fm) # post) dtoName)
            \<and> (\<forall>r. transform R H (JObj None ps) pre dtoName = Inr r \<longrightarrow>
                  transform R H (JObj None ps) (pre @ (key, fm) # post) dtoName =
                    Inl (TransformError (''Required field '' @ quoted key @ '' is missing'')
                           dtoName key JUndefined None None (JObj None ps)
                           (CtxFilter (pre @ (key, fm) # post)))))
       \<and> (\<not> (\<not> noCheck fm \<and> (required fm \<or> isNestedObject fm)) \<longrightarrow>
            (\<forall>out. (transform R H (JObj None ps) (pre @ (key, fm) # post) dtoName = Inr out)
                  = (transform R H (JObj None ps) (pre @ post) dtoName = Inr out)))"
proof (intro conjI impI allI)
  assume c: "\<not> noCheck fm \<and> (required fm \<or> isNestedObject fm)"
  let ?e = "TransformError (''Required field '' @ quoted key @ '' is missing'')
              dtoName key JUndefined None None (JObj None ps)
              (CtxFilter (pre @ (key, fm) # post))"
  have step: "\<And>acc. transformEntry R H (JObj None ps) (pre @ (key, fm) # post) dtoName
                       (key, fm) acc = Inl ?e"
    using assms c by (simp add: entry_missing)
  show "isl (transform R H (JObj None ps) (pre @ (key, fm) # post) dtoName)"
    by (rule transform_raise_entry(1) [OF step])
  fix r
  assume "transform R H (JObj None ps) pre dtoName = Inr r"
  then show "transform R H (JObj None ps) (pre @ (key, fm) # post) dtoName = Inl ?e"
    by (rule transform_raise_entry(2) [OF step])
next
  fix out
  assume c: "\<not> (\<not> noCheck fm \<and> (required fm \<or> isNestedObject fm))"
  have step: "\<And>acc. transformEntry R H (JObj None ps) (pre @ (key, fm) # post) dtoName
                       (key, fm) acc = Inr acc"
    using assms c by (simp add: entry_missing)
  show "(transform R H (JObj None ps) (pre @ (key, fm) # post) dtoName = Inr out)
          = (transform R H (JObj None ps) (pre @ post) dtoName = Inr out)"
    by (rule transform_skip_entry [OF step])
qed

theorem missing_field_witness:
  "transform sampleRegistry sampleHost (JObj None [(''id'', JNum (Fin 1))])
     [idField, (''name'', scalarField ''String'' True False False)] ''UserDto''
     = Inl (TransformError (''Required field '' @ quoted ''name'' @ '' is missing'')
              ''UserDto'' ''name'' JUndefined None None (JObj None [(''id'', JNum (Fin 1))])
              (CtxFilter [idField, (''name'', scalarField ''String'' True False False)]))
   \<and> transform sampleRegistry sampleHost (JObj None [(''id'', JNum (Fin 1))])
     [idField, (''name'', scalarField ''String'' False False False)] ''UserDto''
     = Inr (JObj None [(''id'', JNum (Fin 1))])
   \<and> transform sampleRegistry sampleHost (JObj None [(''id'', JNum (Fin 1))])
     [idField, (''name'', scalarField ''String'' True False True)] ''UserDto''
     = Inr (JObj None [(''id'', JNum (Fin 1))])"
proof -
  let ?ps = "[(''id'', JNum (Fin 1))]"
  let ?req = "scalarField ''String'' True False False"
  let ?opt = "scalarField ''String'' False False False"
  let ?skip = "scalarField ''String'' True False True"
  have u: "map_of ?ps ''name'' = None" by simp
  have h: "map_of ?ps ''hasOwnProperty'' = None" by simp
  have f: "\<not> noCheck ?req" "required ?req" "\<not> required ?opt" "\<not> isNestedObject ?opt"
    "noCheck ?skip"
    by code_simp+
  have pre: "transform sampleRegistry sampleHost (JObj None ?ps) [idField] ''UserDto''
               = Inr (JObj None [(''id'', JNum (Fin 1))])"
    by code_simp
  have 1: "transform sampleRegistry sampleHost (JObj None ?ps) [idField, (''name'', ?req)] ''UserDto''
     = Inl (TransformError (''Required field '' @ quoted ''name'' @ '' is missing'')
              ''UserDto'' ''name'' JUndefined None None (JObj None ?ps)
              (CtxFilter [idField, (''name'', ?req)]))"
    using missing_field [OF u h, of ?req sampleRegistry sampleHost "[idField]" "[]" "''UserDto''"]
      f(1,2) pre by simp
  have 2: "transform sampleRegistry sampleHost (JObj None ?ps) [idField, (''name'', ?opt)] ''UserDto''
     = Inr (JObj None [(''id'', JNum (Fin 1))])"
    using missing_field [OF u h, of ?opt sampleRegistry sampleHost "[idField]" "[]" "''UserDto''"]
      f(3,4) pre by simp
  have 3: "transform sampleRegistry sampleHost (JObj None ?ps) [idField, (''name'', ?skip)] ''UserDto''
     = Inr (JObj None [(''id'', JNum (Fin 1))])"
    using missing_field [OF u h, of ?skip sampleRegistry sampleHost "[idField]" "[]" "''UserDto''"]
      f(5) pre by simp
  from 1 2 3 show ?thesis by blast
qed

text \<open>
  C3 as stated fails: an inline nested structure that is neither required nor
  skip-validation raises when its key is missing (the repository's test
  \<^verbatim>\<open>should throw an error when nested object is missing\<close> expects this).
\<close>

theorem missing_field_counterexample:
  "transform sampleRegistry sampleHost (JObj None [(''id'', JNum (Fin 1))])
     [idField, (''address'', inlineAddress)] ''UserDto''
     = Inl (TransformError (''Required field '' @ quoted ''address'' @ '' is missing'')
              ''UserDto'' ''address'' JUndefined None None (JObj None [(''id'', JNum (Fin 1))])
              (CtxFilter [idField, (''address'', inlineAddress)]))
   \<and> \<not> required inlineAddress
   \<and> \<not> noCheck inlineAddress
   \<and> map_of [(''id'', JNum (Fin 1))] ''address'' = None"
  by code_simp

subsection \<open>Skip-validation fields\<close>

lemma mapiE_id:
  assumes "\<And>i x. x \<in> set xs \<Longrightarrow> f i x = Inr x"
  shows "mapiE f n xs = Inr xs"
  using assms by (induction xs arbitrary: n) auto

lemma transformField_unchecked_scalar:
  assumes "noCheck fm" "typeCheck fm = 1" "\<not> isNestedObject fm" "v \<noteq> JUndefined" "v \<noteq> JNull"
  shows "transformField R H v fm fieldPath = Inr v"
  using assms by (simp add: transformField.simps transformPrimitive_def)

lemma transformField_array:
  assumes "typeCheck fm = 4 \<or> typeCheck fm = 16" and "\<not> isNestedObject fm"
  shows "transformField R H (JArr xs) fm fieldPath =
           (case mapiE (transformItem R H (JArr xs) fm fieldPath) 0 xs of
              Inl e \<Rightarrow> Inl e
            | Inr items \<Rightarrow> Inr (JArr items))"
  using assms unfolding transformItem_def
  by (subst transformField.simps) auto

lemma transformField_unchecked_scalar_array:
  assumes "noCheck fm" "typeCheck fm = 16" "\<not> isNestedObject fm" "JUndefined \<notin> set xs"
  shows "transformField R H (JArr xs) fm fieldPath = Inr (JArr xs)"
proof -
  have "mapiE (transformItem R H (JArr xs) fm fieldPath) 0 xs = Inr xs"
    using assms by (intro mapiE_id) (auto simp: transformItem_def transformPrimitive_def)
  with assms show ?thesis
    by (simp add: transformField_array)
qed

lemma map_of_assign:
  "map_of (assign ps k v) k' = (if k' = k then Some v else map_of ps k')"
  by (induction ps) auto

lemma foldE_lookup:
  assumes "foldE (transformEntry R H obj F dtoName) fs a = Inr res"
    and "k \<notin> set (map fst fs)"
  shows "map_of res k = map_of a k"
  using assms
proof (induction fs arbitrary: a)
  case Nil
  then show ?case by simp
next
  case (Cons x fs)
  from Cons.prems(1) obtain a1 where step: "transformEntry R H obj F dtoName x a = Inr a1"
    and rest: "foldE (transformEntry R H obj F dtoName) fs a1 = Inr res"
    by (auto split: sum.splits)
  from transformEntry_shape [OF step] Cons.prems(2) have "map_of a1 k = map_of a k"
    by (auto simp: map_of_assign)
  with Cons.IH [OF rest] Cons.prems(2) show ?case by simp
qed

lemma transformEntry_isl:
  "isl (transformEntry R H obj F dtoName x acc) = isl (transformEntry R H obj F' dtoName x acc')"
  by (cases x) (auto simp: transformEntry_def split: sum.splits if_splits)

lemma foldE_isl:
  "isl (foldE (transformEntry R H obj F dtoName) fs acc)
     = isl (foldE (transformEntry R H obj F' dtoName) fs acc')"
proof (induction fs arbitrary: acc acc')
  case Nil
  show ?case by simp
next
  case (Cons x fs)
  show ?case
  proof (cases "transformEntry R H obj F dtoName x acc")
    case (Inl e)
    with transformEntry_isl [of R H obj F dtoName x acc F' acc']
    obtain e' where "transformEntry R H obj F' dtoName x acc' = Inl e'"
      by (cases "transformEntry R H obj F' dtoName x acc'") auto
    with Inl show ?thesis by simp
  next
    case (Inr a)
    with transformEntry_isl [of R H obj F dtoName x acc F' acc']
    obtain a' where "transformEntry R H obj F' dtoName x acc' = Inr a'"
      by (cases "transformEntry R H obj F' dtoName x acc'") auto
    with Inr Cons.IH [of a a'] show ?thesis by simp
  qed
qed

lemma transform_pass_entry:
  assumes "\<And>acc. transformEntry R H (JObj None ps) (pre @ x # post) dtoName x acc
                    = Inr (assign acc (fst x) v)"
  shows "isl (transform R H (JObj None ps) (pre @ x # post) dtoName)
           = isl (transform R H (JObj None ps) (pre @ post) dtoName)"
    and "distinct (map fst (pre @ x # post)) \<Longrightarrow>
         transform R H (JObj None ps) (pre @ x # post) dtoName = Inr (JObj None result) \<Longrightarrow>
         map_of result (fst x) = Some v"
proof -
  let ?F = "pre @ x # post"
  let ?body = "transformEntry R H (JObj None ps) ?F dtoName"
  let ?body' = "transformEntry R H (JObj None ps) (pre @ post) dtoName"
  show "isl (transform R H (JObj None ps) ?F dtoName)
          = isl (transform R H (JObj None ps) (pre @ post) dtoName)"
  proof (cases "foldE ?body pre []")
    case (Inl e)
    with foldE_isl [of R H "JObj None ps" ?F dtoName pre "[]" "pre @ post" "[]"]
    obtain e' where "foldE ?body' pre [] = Inl e'"
      by (cases "foldE ?body' pre []") auto
    with Inl show ?thesis
      by (simp add: transform_record foldE_append)
  next
    case (Inr a)
    with foldE_isl [of R H "JObj None ps" ?F dtoName pre "[]" "pre @ post" "[]"]
    obtain a' where a': "foldE ?body' pre [] = Inr a'"
      by (cases "foldE ?body' pre []") auto
    have i: "isl (foldE ?body post (assign a (fst x) v)) = isl (foldE ?body' post a')"
      by (rule foldE_isl)
    have l: "transform R H (JObj None ps) ?F dtoName =
               (case foldE ?body post (assign a (fst x) v) of
                  Inl e \<Rightarrow> Inl e
                | Inr r \<Rightarrow> Inr (JObj None r))"
      using Inr assms by (simp add: transform_record foldE_append)
    have r: "transform R H (JObj None ps) (pre @ post) dtoName =
               (case foldE ?body' post a' of
                  Inl e \<Rightarrow> Inl e
                | Inr r \<Rightarrow> Inr (JObj None r))"
      using a' by (simp add: transform_record foldE_append)
    show ?thesis
      unfolding l r using i
      by (cases "foldE ?body post (assign a (fst x) v)"; cases "foldE ?body' post a'") simp_all
  qed
  assume d: "distinct (map fst ?F)"
    and t: "transform R H (JObj None ps) ?F dtoName = Inr (JObj None result)"
  from t obtain a where a: "foldE ?body pre [] = Inr a"
    and rest: "foldE ?body post (assign a (fst x) v) = Inr result"
    using assms by (auto simp: transform_split split: sum.splits)
  from d have "fst x \<notin> set (map fst post)" by auto
  from foldE_lookup [OF rest this] show "map_of result (fst x) = Some v"
    by (simp add: map_of_assign)
qed

text \<open>
  C4, as the code has it: for a skip-validation field at any place of the filter whose key
  the input record holds, the record having no own property named \<^verbatim>\<open>hasOwnProperty\<close>.  The
  value \<^verbatim>\<open>undefined\<close> is skipped: nothing is raised and the result is the one of the filter
  without the field.  The value \<^verbatim>\<open>null\<close> is included as \<^verbatim>\<open>null\<close>; for a Scalar field every other
  value is included unchanged; for a ScalarArray field so is an array that holds no
  \<^verbatim>\<open>undefined\<close>.  In these cases the field raises nothing (\<^verbatim>\<open>transform\<close> raises exactly when it
  does for the filter without the field), and in the output of a filter with distinct keys
  the key holds the received value.
\<close>

theorem skip_validation_field:
  assumes "noCheck fm" and "map_of ps key = Some v" and "map_of ps ''hasOwnProperty'' = None"
  shows "(v = JUndefined \<longrightarrow>
            (\<forall>out. (transform R H (JObj None ps) (pre @ (key, fm) # post) dtoName = Inr out)
                  = (transform R H (JObj None ps) (pre @ post) dtoName = Inr out)))
       \<and> (v = JNull
            \<or> (v \<noteq> JUndefined \<and> typeCheck fm = 1 \<and> \<not> isNestedObject fm)
            \<or> (typeCheck fm = 16 \<and> \<not> isNestedObject fm \<and> (\<exists>xs. v = JArr xs \<and> JUndefined \<notin> set xs))
          \<longrightarrow>
            isl (transform R H (JObj None ps) (pre @ (key, fm) # post) dtoName)
              = isl (transform R H (JObj None ps) (pre @ post) dtoName)
            \<and> (\<forall>result. distinct (map fst (pre @ (key, fm) # post))
                  \<and> transform R H (JObj None ps) (pre @ (key, fm) # post) dtoName
                      = Inr (JObj None result) \<longrightarrow>
                  map_of result key = Some v))"
proof (intro conjI impI allI)
  fix out
  assume "v = JUndefined"
  with assms have "\<And>acc. transformEntry R H (JObj None ps) (pre @ (key, fm) # post) dtoName
                       (key, fm) acc = Inr acc"
    by (simp add: entry_undefined)
  then show "(transform R H (JObj None ps) (pre @ (key, fm) # post) dtoName = Inr out)
               = (transform R H (JObj None ps) (pre @ post) dtoName = Inr out)"
    by (rule transform_skip_entry)
next
  assume c: "v = JNull
            \<or> (v \<noteq> JUndefined \<and> typeCheck fm = 1 \<and> \<not> isNestedObject fm)
            \<or> (typeCheck fm = 16 \<and> \<not> isNestedObject fm \<and> (\<exists>xs. v = JArr xs \<and> JUndefined \<notin> set xs))"
  have step: "\<And>acc. transformEntry R H (JObj None ps) (pre @ (key, fm) # post) dtoName
                 (key, fm) acc = Inr (assign acc (fst (key, fm)) v)"
  proof (cases "v = JNull")
    case True
    with assms show "\<And>acc. ?thesis acc" by (simp add: entry_null)
  next
    case False
    with c have u: "v \<noteq> JUndefined" by auto
    from c False have "transformField R H v fm (dtoName @ ''.'' @ key) = Inr v"
      using assms(1) transformField_unchecked_scalar [of fm v R H]
        transformField_unchecked_scalar_array [of fm _ R H]
      by auto
    with assms(2,3) False u show "\<And>acc. ?thesis acc"
      by (simp add: entry_value)
  qed
  show "isl (transform R H (JObj None ps) (pre @ (key, fm) # post) dtoName)
          = isl (transform R H (JObj None ps) (pre @ post) dtoName)"
    by (rule transform_pass_entry(1) [OF step])
  fix result
  assume "distinct (map fst (pre @ (key, fm) # post))
          \<and> transform R H (JObj None ps) (pre @ (key, fm) # post) dtoName
              = Inr (JObj None result)"
  with transform_pass_entry(2) [OF step, of result] show "map_of result key = Some v"
    by simp
qed

theorem skip_validation_field_witness:
  "transform sampleRegistry sampleHost
     (JObj None [(''id'', JNum (Fin 1)), (''data'', JNull), (''name'', JStr ''John'')])
     [idField, (''data'', scalarField ''Object'' True False True),
      (''name'', scalarField ''String'' True False False)] ''UserDto''
     = Inr (JObj None [(''id'', JNum (Fin 1)), (''data'', JNull), (''name'', JStr ''John'')])
   \<and> map_of [(''id'', JNum (Fin 1)), (''data'', JNull), (''name'', JStr ''John'')] ''data''
     = Some JNull
   \<and> transform sampleRegistry sampleHost
       (JObj None [(''id'', JNum (Fin 1)), (''data'', JArr [JNum (Fin 1), JStr ''two'']),
                   (''name'', JStr ''John'')])
       [idField, (''data'', scalarField ''Object'' True False True),
        (''name'', scalarField ''String'' True False False)] ''UserDto''
     = Inr (JObj None [(''id'', JNum (Fin 1)), (''data'', JArr [JNum (Fin 1), JStr ''two'']),
                       (''name'', JStr ''John'')])
   \<and> \<not> isl (transform sampleRegistry sampleHost
              (JObj None [(''id'', JNum (Fin 1)), (''data'', JArr [JNum (Fin 1), JStr ''two'']),
                          (''name'', JStr ''John'')])
              [idField, (''name'', scalarField ''String'' True False False)] ''UserDto'')
   \<and> transform sampleRegistry sampleHost
       (JObj None [(''id'', JNum (Fin 1)), (''data'', JUndefined), (''name'', JStr ''John'')])
       [idField, (''data'', scalarField ''Object'' True False True),
        (''name'', scalarField ''String'' True False False)] ''UserDto''
     = Inr (JObj None [(''id'', JNum (Fin 1)), (''name'', JStr ''John'')])"
proof -
  let ?fm = "scalarField ''Object'' True False True"
  let ?nm = "(''name'', scalarField ''String'' True False False)"
  let ?data = "JArr [JNum (Fin 1), JStr ''two'']"
  let ?p1 = "[(''id'', JNum (Fin 1)), (''data'', JNull), (''name'', JStr ''John'')]"
  let ?p2 = "[(''id'', JNum (Fin 1)), (''data'', ?data), (''name'', JStr ''John'')]"
  let ?p3 = "[(''id'', JNum (Fin 1)), (''data'', JUndefined), (''name'', JStr ''John'')]"
  have f: "noCheck ?fm" "typeCheck ?fm = 1" "\<not> isNestedObject ?fm"
    by code_simp+
  have d: "distinct (map fst [idField, (''data'', ?fm), ?nm])"
    by code_simp
  have e1: "transform sampleRegistry sampleHost (JObj None ?p1) [idField, (''data'', ?fm), ?nm]
              ''UserDto'' = Inr (JObj None ?p1)"
    by code_simp
  have e2: "transform sampleRegistry sampleHost (JObj None ?p2) [idField, (''data'', ?fm), ?nm]
              ''UserDto'' = Inr (JObj None ?p2)"
    by code_simp
  have e3: "transform sampleRegistry sampleHost (JObj None ?p3) [idField, ?nm] ''UserDto''
              = Inr (JObj None [(''id'', JNum (Fin 1)), (''name'', JStr ''John'')])"
    by code_simp
  have 1: "map_of ?p1 ''data'' = Some JNull"
    using skip_validation_field [OF f(1), of ?p1 "''data''" JNull sampleRegistry sampleHost
        "[idField]" "[?nm]" "''UserDto''"] d e1
    by simp
  have 2: "\<not> isl (transform sampleRegistry sampleHost (JObj None ?p2) [idField, ?nm] ''UserDto'')"
    using skip_validation_field [OF f(1), of ?p2 "''data''" ?data sampleRegistry sampleHost
        "[idField]" "[?nm]" "''UserDto''"] f(2,3) e2
    by simp
  have 3: "transform sampleRegistry sampleHost (JObj None ?p3) [idField, (''data'', ?fm), ?nm]
             ''UserDto'' = Inr (JObj None [(''id'', JNum (Fin 1)), (''name'', JStr ''John'')])"
    using skip_validation_field [OF f(1), of ?p3 "''data''" JUndefined sampleRegistry sampleHost
        "[idField]" "[?nm]" "''UserDto''"] e3
    by simp
  from e1 1 e2 2 3 show ?thesis by blast
qed

text \<open>
  C4 as stated fails: a skip-validation field that holds \<^verbatim>\<open>undefined\<close> is left out of the
  output, not included.
\<close>

theorem skip_validation_field_counterexample:
  "transform sampleRegistry sampleHost (JObj None [(''id'', JNum (Fin 1)), (''name'', JUndefined)])
     [idField, (''name'', scalarField ''String'' True False True)] ''UserDto''
     = Inr (JObj None [(''id'', JNum (Fin 1))])
   \<and> noCheck (scalarField ''String'' True False True)
   \<and> map_of [(''id'', JNum (Fin 1)), (''name'', JUndefined)] ''name'' = Some JUndefined
   \<and> map_of [(''id'', JNum (Fin 1))] ''name'' = None"
  by code_simp

subsection \<open>Arrays\<close>

text \<open>
  C6 at a failing input: the field is an array of the class \<^verbatim>\<open>AddressDto\<close> and is not
  nullable, the value is the array \<^verbatim>\<open>[null]\<close>.  The element is not rejected: \<^verbatim>\<open>transform\<close>
  returns \<^verbatim>\<open>null\<close> for it, and the field is accepted with the output \<^verbatim>\<open>[null]\<close>.
\<close>

theorem null_element_of_record_array:
  "transformField sampleRegistry sampleHost (JArr [JNull]) addressArray ''UserDto.addresses''
     = Inr (JArr [JNull])
   \<and> \<not> nullable addressArray
   \<and> \<not> noCheck addressArray
   \<and> typeCheck addressArray = 4"
  by code_simp

subsection \<open>Inline nested structures\<close>

lemma transform_null_root: "transform R H JNull dtoFilter dtoName = Inr JNull"
  by (simp add: transform.simps [of R H JNull])

lemma transformField_nested:
  assumes "isNestedObject fm" and "v \<noteq> JUndefined"
  shows "transformField R H v fm fieldPath =
     (if v = JNull \<and> nullable fm then Inr JNull
      else if \<not> typeofObject v \<or> v = JNull then
        Inl (TransformError ''Field should be an object'' fieldPath [] v (Some ''object'')
               None v (CtxField fm))
      else
        (case transform R H v (nestedFields fm) fieldPath of
           Inl e \<Rightarrow> Inl e
         | Inr transformedNested \<Rightarrow>
             (case validateNested v fm fieldPath (nestedFields fm) of
                Some e \<Rightarrow> Inl e
              | None \<Rightarrow> Inr transformedNested)))"
  using assms by (subst transformField.simps) simp

lemma transformField_nested_object:
  assumes "isNestedObject fm" and "typeofObject v" and "v \<noteq> JNull"
  shows "transformField R H v fm fieldPath =
     (case transform R H v (nestedFields fm) fieldPath of
        Inl e \<Rightarrow> Inl e
      | Inr transformedNested \<Rightarrow>
          (case validateNested v fm fieldPath (nestedFields fm) of
             Some e \<Rightarrow> Inl e
           | None \<Rightarrow> Inr transformedNested))"
proof -
  from assms(2) have "v \<noteq> JUndefined" by auto
  from transformField_nested [OF assms(1) this] assms(2,3) show ?thesis by simp
qed

lemma validateNested_rejects:
  assumes "(k, nf) \<in> set nfs" and "ownProperty v k"
    and "\<not> fst (validateFieldType (getProp v k) nf)"
  shows "validateNested v fm fieldPath nfs \<noteq> None"
  using assms(1)
proof (induction nfs)
  case Nil
  then show ?case by simp
next
  case (Cons x nfs)
  obtain k' nf' where x: "x = (k', nf')" by (cases x)
  show ?case
  proof (cases "hasOwnProperty v k'")
    case (Inl e)
    with x show ?thesis by simp
  next
    case (Inr present)
    then have p: "present = ownProperty v k'"
      by (auto simp: hasOwnProperty_def split: if_splits)
    show ?thesis
    proof (cases "(k, nf) = x")
      case True
      with x Inr p assms(2,3) show ?thesis by simp
    next
      case False
      with Cons have "validateNested v fm fieldPath nfs \<noteq> None" by simp
      with x Inr show ?thesis by simp
    qed
  qed
qed

lemma validateNested_accepts:
  assumes "v \<noteq> JUndefined" "v \<noteq> JNull" "\<not> ownProperty v ''hasOwnProperty''"
    and "\<forall>(k, nf) \<in> set nfs.
           if ownProperty v k then fst (validateFieldType (getProp v k) nf) else \<not> required nf"
  shows "validateNested v fm fieldPath nfs = None"
  using assms(4)
proof (induction nfs)
  case Nil
  show ?case by simp
next
  case (Cons x nfs)
  obtain k nf where x: "x = (k, nf)" by (cases x)
  have h: "hasOwnProperty v k = Inr (ownProperty v k)"
    using assms(1-3) by (simp add: hasOwnProperty_def)
  from Cons.prems x have
    "if ownProperty v k then fst (validateFieldType (getProp v k) nf) else \<not> required nf"
    by auto
  moreover from Cons have "validateNested v fm fieldPath nfs = None" by simp
  ultimately show ?case
    using x h by (simp add: isFieldRequired_def)
qed

lemma validateFieldType_scalar:
  assumes "\<not> noCheck nf" and "typeCheck nf = 1"
  shows "fst (validateFieldType x nf) = validatePrimitiveType x (expectedType nf)"
  using assms by (auto simp: validateFieldType_def validatePrimitiveType_def Let_def)

text \<open>
  C7, as the code has it: for an inline nested structure and an object as the received
  value, the two passes of the second revision compared with its primary transform run
  alone.  An error of the primary transform is the error raised.  Whenever the two-pass
  handling accepts, the primary transform accepts with the same output.  But the outcome
  is not always the same: when the primary transform accepts, the two-pass handling still
  rejects if some inline Scalar field that is not skip-validation holds a value, neither
  \<^verbatim>\<open>undefined\<close> nor \<^verbatim>\<open>null\<close>, that fails the type check and is therefore one which the primary
  transform has coerced.  It accepts, with the output of the primary transform, when the
  object has no own property named \<^verbatim>\<open>hasOwnProperty\<close>, every inline field it holds passes
  \<^verbatim>\<open>validateFieldType\<close> and no inline field it lacks is required.
\<close>

theorem nested_two_pass:
  assumes "isNestedObject fm" and "typeofObject v" and "v \<noteq> JNull"
  shows "(\<forall>e. transform R H v (nestedFields fm) fieldPath = Inl e \<longrightarrow>
            transformField R H v fm fieldPath = Inl e)
       \<and> (\<forall>out. transformField R H v fm fieldPath = Inr out \<longrightarrow>
            transform R H v (nestedFields fm) fieldPath = Inr out)
       \<and> (\<forall>out k nf x. transform R H v (nestedFields fm) fieldPath = Inr out
               \<and> (k, nf) \<in> set (nestedFields fm) \<and> \<not> noCheck nf \<and> typeCheck nf = 1
               \<and> map_of (ownProps v) k = Some x \<and> x \<noteq> JUndefined \<and> x \<noteq> JNull
               \<and> \<not> validatePrimitiveType x (expectedType nf) \<longrightarrow>
            isl (transformField R H v fm fieldPath))
       \<and> (\<forall>out. transform R H v (nestedFields fm) fieldPath = Inr out
               \<and> \<not> ownProperty v ''hasOwnProperty''
               \<and> (\<forall>(k, nf) \<in> set (nestedFields fm).
                     if ownProperty v k then fst (validateFieldType (getProp v k) nf)
                     else \<not> required nf) \<longrightarrow>
            transformField R H v fm fieldPath = Inr out)"
proof -
  note nested = transformField_nested_object [OF assms, of R H fieldPath]
  show ?thesis
  proof (intro conjI allI impI)
    fix e
    assume "transform R H v (nestedFields fm) fieldPath = Inl e"
    with nested show "transformField R H v fm fieldPath = Inl e"
      by simp
  next
    fix out
    assume "transformField R H v fm fieldPath = Inr out"
    with nested show "transform R H v (nestedFields fm) fieldPath = Inr out"
      by (simp split: sum.splits option.splits)
  next
    fix out k nf x
    assume a: "transform R H v (nestedFields fm) fieldPath = Inr out
               \<and> (k, nf) \<in> set (nestedFields fm) \<and> \<not> noCheck nf \<and> typeCheck nf = 1
               \<and> map_of (ownProps v) k = Some x \<and> x \<noteq> JUndefined \<and> x \<noteq> JNull
               \<and> \<not> validatePrimitiveType x (expectedType nf)"
    then have own: "ownProperty v k" and g: "getProp v k = x"
      by (simp_all add: ownProperty_def getProp_def)
    from a g have "\<not> fst (validateFieldType (getProp v k) nf)"
      by (simp add: validateFieldType_scalar)
    with a own have "validateNested v fm fieldPath (nestedFields fm) \<noteq> None"
      by (intro validateNested_rejects [of k nf]) simp_all
    with nested a show "isl (transformField R H v fm fieldPath)"
      by auto
  next
    fix out
    assume a: "transform R H v (nestedFields fm) fieldPath = Inr out
               \<and> \<not> ownProperty v ''hasOwnProperty''
               \<and> (\<forall>(k, nf) \<in> set (nestedFields fm).
                     if ownProperty v k then fst (validateFieldType (getProp v k) nf)
                     else \<not> required nf)"
    from assms(2) have u: "v \<noteq> JUndefined" by auto
    from a have "validateNested v fm fieldPath (nestedFields fm) = None"
      by (intro validateNested_accepts [OF u assms(3)]) simp_all
    with nested a show "transformField R H v fm fieldPath = Inr out"
      by simp
  qed
qed

theorem nested_two_pass_witness:
  "transformField sampleRegistry sampleHost
     (JObj None [(''city'', JStr ''New York''), (''country'', JStr ''USA'')])
     zipAddress ''UserDto.address''
     = Inr (JObj None [(''city'', JStr ''New York'')])
   \<and> transformField sampleRegistry sampleHost (JObj None [(''zipCode'', JNum (Fin 7))])
       zipAddress ''UserDto.address''
     = Inl (TransformError (''Required field '' @ quoted ''city'' @ '' is missing'')
              ''UserDto.address'' ''city'' JUndefined None None
              (JObj None [(''zipCode'', JNum (Fin 7))]) (CtxFilter (nestedFields zipAddress)))
   \<and> transform sampleRegistry sampleHost
       (JObj None [(''city'', JStr ''New York''), (''zipCode'', JStr ''42'')])
       (nestedFields zipAddress) ''UserDto.address''
     = Inr (JObj None [(''city'', JStr ''New York''), (''zipCode'', JNum (Fin 42))])
   \<and> isl (transformField sampleRegistry sampleHost
            (JObj None [(''city'', JStr ''New York''), (''zipCode'', JStr ''42'')])
            zipAddress ''UserDto.address'')"
proof -
  let ?ok = "JObj None [(''city'', JStr ''New York''), (''country'', JStr ''USA'')]"
  let ?bad = "JObj None [(''zipCode'', JNum (Fin 7))]"
  let ?text = "JObj None [(''city'', JStr ''New York''), (''zipCode'', JStr ''42'')]"
  let ?zip = "prepareField sampleRegistry (RawField (TFunc ''Number'') None False False)
                False False"
  let ?e = "TransformError (''Required field '' @ quoted ''city'' @ '' is missing'')
              ''UserDto.address'' ''city'' JUndefined None None ?bad
              (CtxFilter (nestedFields zipAddress))"
  have n: "isNestedObject zipAddress"
    by code_simp
  have o: "typeofObject ?ok" "?ok \<noteq> JNull" "typeofObject ?bad" "?bad \<noteq> JNull"
    "typeofObject ?text" "?text \<noteq> JNull"
    by simp_all
  have p1: "transform sampleRegistry sampleHost ?ok (nestedFields zipAddress) ''UserDto.address''
              = Inr (JObj None [(''city'', JStr ''New York'')])"
    by code_simp
  have s1: "\<not> ownProperty ?ok ''hasOwnProperty''
            \<and> (\<forall>(k, nf) \<in> set (nestedFields zipAddress).
                  if ownProperty ?ok k then fst (validateFieldType (getProp ?ok k) nf)
                  else \<not> required nf)"
    by code_simp
  have p2: "transform sampleRegistry sampleHost ?bad (nestedFields zipAddress) ''UserDto.address''
              = Inl ?e"
    by code_simp
  have p3: "transform sampleRegistry sampleHost ?text (nestedFields zipAddress)
              ''UserDto.address''
              = Inr (JObj None [(''city'', JStr ''New York''), (''zipCode'', JNum (Fin 42))])"
    by code_simp
  have s3: "(''zipCode'', ?zip) \<in> set (nestedFields zipAddress) \<and> \<not> noCheck ?zip
            \<and> typeCheck ?zip = 1 \<and> map_of (ownProps ?text) ''zipCode'' = Some (JStr ''42'')
            \<and> JStr ''42'' \<noteq> JUndefined \<and> JStr ''42'' \<noteq> JNull
            \<and> \<not> validatePrimitiveType (JStr ''42'') (expectedType ?zip)"
    by code_simp
  note accept = nested_two_pass [OF n o(1,2), of sampleRegistry sampleHost "''UserDto.address''",
      THEN conjunct2, THEN conjunct2, THEN conjunct2, rule_format,
      of "JObj None [(''city'', JStr ''New York'')]"]
  note reject = nested_two_pass [OF n o(3,4), of sampleRegistry sampleHost "''UserDto.address''",
      THEN conjunct1, rule_format, of ?e]
  note coerced = nested_two_pass [OF n o(5,6), of sampleRegistry sampleHost "''UserDto.address''",
      THEN conjunct2, THEN conjunct2, THEN conjunct1, rule_format,
      of "JObj None [(''city'', JStr ''New York''), (''zipCode'', JNum (Fin 42))]"
         "''zipCode''" ?zip "JStr ''42''"]
  have 1: "transformField sampleRegistry sampleHost ?ok zipAddress ''UserDto.address''
             = Inr (JObj None [(''city'', JStr ''New York'')])"
    using accept p1 s1 by blast
  have 2: "transformField sampleRegistry sampleHost ?bad zipAddress ''UserDto.address'' = Inl ?e"
    using reject p2 by blast
  have 3: "isl (transformField sampleRegistry sampleHost ?text zipAddress ''UserDto.address'')"
    using coerced p3 s3 by blast
  from 1 2 p3 3 show ?thesis by blast
qed

text \<open>
  C7 as stated fails.  A number given as text in an inline nested structure is coerced and
  accepted by the single pass of the first revision, and by the primary transform of the
  second revision, while the two-pass handling rejects it in its secondary pass (the
  repository's test \<^verbatim>\<open>should throw an error for invalid nested field types\<close> expects that
  rejection).
\<close>

theorem nested_two_pass_counterexample:
  "transformField1 8 sampleRegistry sampleHost
     (JObj None [(''city'', JStr ''New York''), (''zipCode'', JStr ''42'')])
     zipAddress ''UserDto.address''
     = Some (Inr (JObj None [(''city'', JStr ''New York''), (''zipCode'', JNum (Fin 42))]))
   \<and> transform sampleRegistry sampleHost
       (JObj None [(''city'', JStr ''New York''), (''zipCode'', JStr ''42'')])
       (nestedFields zipAddress) ''UserDto.address''
     = Inr (JObj None [(''city'', JStr ''New York''), (''zipCode'', JNum (Fin 42))])
   \<and> transformField sampleRegistry sampleHost
       (JObj None [(''city'', JStr ''New York''), (''zipCode'', JStr ''42'')])
       zipAddress ''UserDto.address''
     = Inl (TransformError (''Invalid type for nested field '' @ quoted ''zipCode'')
              ''UserDto.address.zipCode'' ''zipCode'' (JStr ''42'') (Some ''number'') None
              (JObj None [(''city'', JStr ''New York''), (''zipCode'', JStr ''42'')])
              (CtxField zipAddress))"
  by code_simp

subsection \<open>Prepared filters are well formed\<close>

lemma wf_filter_Nil: "wf_filter []"
  by (subst wf_filter.simps) simp

lemma wf_filter_assign:
  assumes "wf_filter acc" and "wf_filter (nestedFields fm)"
    and "isNestedObject fm = (typeCheck fm = 32 \<or> typeCheck fm = 40)"
  shows "wf_filter (assign acc k fm)"
proof -
  have d: "distinct (map fst (assign acc k fm))"
    using assms(1) by (subst (asm) wf_filter.simps) (auto simp: map_fst_assign)
  have "set (assign acc k fm) \<subseteq> insert (k, fm) (set acc)"
    by (induction acc) (auto split: if_splits)
  then have "\<forall>x \<in> set (assign acc k fm).
      isNestedObject (snd x) = (typeCheck (snd x) = 32 \<or> typeCheck (snd x) = 40)
      \<and> wf_filter (nestedFields (snd x))"
    using assms by (subst (asm) wf_filter.simps) auto
  with d show ?thesis
    by (subst wf_filter.simps) simp
qed

lemma prepareField_kind:
  "isNestedObject (prepareField R rf nc ncp)
     = (typeCheck (prepareField R rf nc ncp) = 32 \<or> typeCheck (prepareField R rf nc ncp) = 40)"
proof (cases rf)
  case (RawField type enum req nul)
  show ?thesis
    unfolding RawField
    by (cases type; cases enum; cases "isClassType (firstType type)") (simp_all add: Let_def)
qed

lemma prepare_wf:
  "wf_filter (nestedFields (prepareField R rf nc ncp))"
  "wf_filter acc \<Longrightarrow> wf_filter (prepareEntries R m cls cnc cncp acc)"
proof (induction R rf nc ncp and R m cls cnc cncp acc rule: prepareField_prepareEntries.induct)
  case (1 R type enum req nul nc ncp)
  have "nestedFields (prepareField R (RawField type enum req nul) nc ncp) =
          (case type of TInline m \<Rightarrow> prepareEntries R m ''Object'' nc ncp [] | _ \<Rightarrow> [])"
    by (simp only: prepareField.simps Let_def field.sel)
  with 1 show ?case
    by (cases type) (simp_all add: wf_filter_Nil)
next
  case (2 R cls cnc cncp acc)
  then show ?case by simp
next
  case (3 R key "value" rest cls cnc cncp acc)
  then show ?case
    by (auto simp: wf_filter_assign prepareField_kind)
qed

lemma prepareMetadata_wf: "wf_filter (prepareMetadata R metadata cls cnc cncp)"
  by (simp add: prepareMetadata_def prepare_wf(2) wf_filter_Nil)

lemma transformDtoFilter_wf: "transformDtoFilter R t = Inr cf \<Longrightarrow> wf_filter cf"
  by (auto simp: transformDtoFilter_def prepareMetadata_wf split: rawtype.splits option.splits)

lemma wf_filter_entry:
  assumes "wf_filter F" and "(k, f) \<in> set F"
  shows "distinct (map fst F)" and "wf_filter (nestedFields f)"
    and "isNestedObject f = (typeCheck f = 32 \<or> typeCheck f = 40)"
  using assms by (subst (asm) wf_filter.simps, force)+

subsection \<open>The shape of results\<close>

lemma transform_result:
  assumes "transform R H obj F dtoName = Inr r"
  shows "r \<noteq> JUndefined"
    and "obj \<noteq> JUndefined \<Longrightarrow> obj \<noteq> JNull \<Longrightarrow> (\<exists>ys. r = JArr ys) \<or> (\<exists>res. r = JObj None res)"
  using assms
  by (subst (asm) transform_unfold, auto split: if_splits sum.splits)+

lemma validatePrimitiveType_defined:
  "validatePrimitiveType c et \<Longrightarrow> c \<noteq> JUndefined \<and> c \<noteq> JNull"
  by (auto simp: validatePrimitiveType_def split: if_splits)

lemma transformPrimitive_result:
  assumes "transformPrimitive H v fm p = Inr w"
  shows "(noCheck fm \<and> w = v) \<or> (\<not> noCheck fm \<and> validatePrimitiveType w (expectedType fm))"
  using assms
  by (auto simp: transformPrimitive_def split: if_splits option.splits)

lemma transformPrimitive_again:
  assumes "transformPrimitive H v fm p = Inr w"
  shows "transformPrimitive H w fm q = Inr w"
  using transformPrimitive_result [OF assms]
  by (auto simp: transformPrimitive_def)

lemma transformPrimitive_valid:
  "validatePrimitiveType v (expectedType fm) \<Longrightarrow> transformPrimitive H v fm p = Inr v"
  by (simp add: transformPrimitive_def)

lemma transformField_kinds:
  assumes "v \<noteq> JUndefined" and "\<not> (v = JNull \<and> nullable fm)" and "\<not> isNestedObject fm"
  shows "transformField R H v fm fieldPath =
     (if typeCheck fm = 1 then transformPrimitive H v fm fieldPath
      else if typeCheck fm = 2 \<or> typeCheck fm = 32 then
        (if \<not> typeofObject v \<or> v = JNull then
           Inl (TransformError ''Field should be an object'' fieldPath [] v (Some ''object'')
                  None v (CtxField fm))
         else
           (case transformDtoFilter R (ftype fm) of
              Inl e \<Rightarrow> Inl e
            | Inr classFilter \<Rightarrow> transform R H v classFilter fieldPath))
      else if typeCheck fm = 4 \<or> typeCheck fm = 16 then
        (if \<not> isArray v then
           Inl (TransformError ''Field should be an array'' fieldPath [] v (Some ''array'')
                  None v (CtxField fm))
         else
           (case mapiE (transformItem R H v fm fieldPath) 0 (elements v) of
              Inl e \<Rightarrow> Inl e
            | Inr items \<Rightarrow> Inr (JArr items)))
      else if typeCheck fm = 8 then
        (case fenum fm of
           None \<Rightarrow> Inl TypeError
         | Some vs \<Rightarrow>
             if \<not> arrayIncludes vs v then
               Inl (TransformError ''Invalid enum value'' fieldPath [] v (Some ''enum'')
                      (Some vs) v (CtxField fm))
             else Inr v)
      else
        Inl (TransformError ''Unexpected type for field'' fieldPath [] v None None v
               (CtxField fm)))"
  using assms unfolding transformItem_def
  by (subst transformField.simps) auto

lemma mapiE_Inr_Cons:
  "mapiE f i (x # xs) = Inr ys \<Longrightarrow>
     \<exists>y ys0. ys = y # ys0 \<and> f i x = Inr y \<and> mapiE f (Suc i) xs = Inr ys0"
  by (auto split: sum.splits)

lemma transformItem_defined:
  assumes "transformItem R H v fm p i x = Inr y"
  shows "y \<noteq> JUndefined"
proof (cases "x = JNull \<and> nullable fm")
  case True
  with assms show ?thesis
    by (auto simp: transformItem_def split: if_splits)
next
  case False
  from assms have x: "x \<noteq> JUndefined"
    by (auto simp: transformItem_def split: if_splits)
  show ?thesis
  proof (cases "typeCheck fm = 4")
    case True
    with assms x False obtain cf where "transform R H x cf (p @ ''['' @ show_nat i @ '']'') = Inr y"
      by (auto simp: transformItem_def split: if_splits sum.splits)
    then show ?thesis by (rule transform_result(1))
  next
    case f: False
    with assms x False have "transformPrimitive H x fm (p @ ''['' @ show_nat i @ '']'') = Inr y"
      by (auto simp: transformItem_def split: if_splits)
    from transformPrimitive_result [OF this] x show ?thesis
      using validatePrimitiveType_defined by blast
  qed
qed

lemma transformField_defined:
  assumes "transformField R H v fm p = Inr w" and "v \<noteq> JUndefined" and "v \<noteq> JNull"
  shows "w \<noteq> JUndefined \<and> w \<noteq> JNull"
proof (cases "isNestedObject fm")
  case True
  from assms(1) transformField_nested [OF True assms(2), of R H p] assms(3)
  have "transform R H v (nestedFields fm) p = Inr w"
    by (auto split: if_splits sum.splits option.splits)
  from transform_result(2) [OF this assms(2,3)] show ?thesis by auto
next
  case False
  note kinds = transformField_kinds [OF assms(2) _ False, of R H p]
  from assms(3) have nn: "\<not> (v = JNull \<and> nullable fm)" by simp
  consider (prim) "typeCheck fm = 1"
    | (cls) "typeCheck fm \<noteq> 1" "typeCheck fm = 2 \<or> typeCheck fm = 32"
    | (arr) "typeCheck fm \<noteq> 1" "\<not> (typeCheck fm = 2 \<or> typeCheck fm = 32)"
        "typeCheck fm = 4 \<or> typeCheck fm = 16"
    | (enum) "typeCheck fm \<noteq> 1" "\<not> (typeCheck fm = 2 \<or> typeCheck fm = 32)"
        "\<not> (typeCheck fm = 4 \<or> typeCheck fm = 16)" "typeCheck fm = 8"
    | (other) "typeCheck fm \<noteq> 1" "\<not> (typeCheck fm = 2 \<or> typeCheck fm = 32)"
        "\<not> (typeCheck fm = 4 \<or> typeCheck fm = 16)" "typeCheck fm \<noteq> 8"
    by blast
  then show ?thesis
  proof cases
    case prim
    with assms(1) kinds [OF nn] have "transformPrimitive H v fm p = Inr w" by simp
    from transformPrimitive_result [OF this] assms(2,3) show ?thesis
      using validatePrimitiveType_defined by blast
  next
    case cls
    with assms(1) kinds [OF nn] obtain cf where "transform R H v cf p = Inr w"
      by (auto split: if_splits sum.splits)
    from transform_result(2) [OF this assms(2,3)] show ?thesis by auto
  next
    case arr
    with assms(1) kinds [OF nn] show ?thesis
      by (auto split: if_splits sum.splits)
  next
    case enum
    with assms kinds [OF nn] show ?thesis
      by (auto split: if_splits option.splits)
  next
    case other
    with assms(1) kinds [OF nn] show ?thesis by simp
  qed
qed

lemma transformField_undefined:
  "transformField R H JUndefined fm p = Inr w \<Longrightarrow> w = JUndefined \<and> \<not> required fm"
  by (subst (asm) transformField.simps) (auto split: if_splits option.splits)

lemma transformField_undefined_optional:
  "\<not> required fm \<Longrightarrow> transformField R H JUndefined fm p = Inr JUndefined"
  by (subst transformField.simps) simp

lemma transformField_null_nullable:
  "nullable fm \<Longrightarrow> transformField R H JNull fm p = Inr JNull"
  by (subst transformField.simps) simp

subsection \<open>What a successful loop over the filter has done\<close>

lemma hasOwnProperty_Inr:
  "hasOwnProperty obj k = Inr b \<Longrightarrow>
     b = ownProperty obj k \<and> \<not> ownProperty obj ''hasOwnProperty''
     \<and> obj \<noteq> JUndefined \<and> obj \<noteq> JNull"
  by (auto simp: hasOwnProperty_def split: if_splits)

lemma hasOwnProperty_plain:
  "obj \<noteq> JUndefined \<Longrightarrow> obj \<noteq> JNull \<Longrightarrow> \<not> ownProperty obj ''hasOwnProperty'' \<Longrightarrow>
     hasOwnProperty obj k = Inr (ownProperty obj k)"
  by (simp add: hasOwnProperty_def)

lemma transformEntry_Inr:
  assumes "transformEntry R H obj F dtoName (k, f) a = Inr a1"
  shows "hasOwnProperty obj k = Inr (ownProperty obj k)"
    and "(\<not> ownProperty obj k \<and> \<not> (\<not> noCheck f \<and> (required f \<or> isNestedObject f)) \<and> a1 = a)
       \<or> (ownProperty obj k \<and> getProp obj k = JUndefined \<and> \<not> (\<not> noCheck f \<and> required f)
            \<and> a1 = a)
       \<or> (ownProperty obj k \<and> getProp obj k = JNull \<and> (noCheck f \<or> nullable f)
            \<and> a1 = assign a k JNull)
       \<or> (ownProperty obj k \<and> getProp obj k \<noteq> JUndefined \<and> getProp obj k \<noteq> JNull
            \<and> (\<exists>w. transformField R H (getProp obj k) f (dtoName @ ''.'' @ k) = Inr w
                  \<and> a1 = assign a k w))"
proof -
  from assms obtain b where b: "hasOwnProperty obj k = Inr b"
    by (cases "hasOwnProperty obj k") (auto simp: transformEntry_def)
  from hasOwnProperty_Inr [OF b] b show h: "hasOwnProperty obj k = Inr (ownProperty obj k)"
    by simp
  from assms h show "(\<not> ownProperty obj k \<and> \<not> (\<not> noCheck f \<and> (required f \<or> isNestedObject f)) \<and> a1 = a)
       \<or> (ownProperty obj k \<and> getProp obj k = JUndefined \<and> \<not> (\<not> noCheck f \<and> required f)
            \<and> a1 = a)
       \<or> (ownProperty obj k \<and> getProp obj k = JNull \<and> (noCheck f \<or> nullable f)
            \<and> a1 = assign a k JNull)
       \<or> (ownProperty obj k \<and> getProp obj k \<noteq> JUndefined \<and> getProp obj k \<noteq> JNull
            \<and> (\<exists>w. transformField R H (getProp obj k) f (dtoName @ ''.'' @ k) = Inr w
                  \<and> a1 = assign a k w))"
    by (auto simp: transformEntry_def split: if_splits sum.splits)
qed

lemma foldE_entries:
  assumes "foldE (transformEntry R H obj F dtoName) fs a = Inr res"
    and "distinct (map fst fs)"
    and "set (map fst fs) \<inter> set (map fst a) = {}"
    and "(k, f) \<in> set fs"
  shows "\<exists>a0 a1. transformEntry R H obj F dtoName (k, f) a0 = Inr a1
           \<and> map_of a0 k = None \<and> map_of res k = map_of a1 k"
  using assms
proof (induction fs arbitrary: a)
  case Nil
  then show ?case by simp
next
  case (Cons x fs)
  from Cons.prems(1) obtain a' where step: "transformEntry R H obj F dtoName x a = Inr a'"
    and rest: "foldE (transformEntry R H obj F dtoName) fs a' = Inr res"
    by (auto split: sum.splits)
  have fresh: "fst x \<notin> set (map fst fs)" "fst x \<notin> set (map fst a)"
    using Cons.prems(2,3) by auto
  show ?case
  proof (cases "(k, f) = x")
    case True
    then have x: "x = (k, f)" by simp
    have "map_of a k = None"
      using fresh(2) by (simp add: x map_of_eq_None_iff)
    moreover have "map_of res k = map_of a' k"
      using foldE_lookup [OF rest, of k] fresh(1) by (simp add: x)
    ultimately show ?thesis
      using step x by blast
  next
    case False
    with Cons.prems(4) have in_fs: "(k, f) \<in> set fs" by simp
    have disj: "set (map fst fs) \<inter> set (map fst a') = {}"
    proof -
      from transformEntry_shape [OF step]
      have "set (map fst a') \<subseteq> insert (fst x) (set (map fst a))"
        by (auto simp: map_fst_assign simp del: set_map split: if_splits)
      with Cons.prems(3) fresh(1) show ?thesis
        by (auto simp del: set_map)
    qed
    from Cons.prems(2) have "distinct (map fst fs)" by simp
    from Cons.IH [OF rest this disj in_fs] show ?thesis .
  qed
qed

lemma entry_outcome:
  assumes "foldE (transformEntry R H obj F dtoName) fs [] = Inr res"
    and "distinct (map fst fs)" and "(k, f) \<in> set fs"
  shows "hasOwnProperty obj k = Inr (ownProperty obj k)"
    and "(\<not> ownProperty obj k \<and> \<not> (\<not> noCheck f \<and> (required f \<or> isNestedObject f))
            \<and> map_of res k = None)
       \<or> (ownProperty obj k \<and> getProp obj k = JUndefined \<and> \<not> (\<not> noCheck f \<and> required f)
            \<and> map_of res k = None)
       \<or> (ownProperty obj k \<and> getProp obj k = JNull \<and> (noCheck f \<or> nullable f)
            \<and> map_of res k = Some JNull)
       \<or> (ownProperty obj k \<and> getProp obj k \<noteq> JUndefined \<and> getProp obj k \<noteq> JNull
            \<and> (\<exists>w. transformField R H (getProp obj k) f (dtoName @ ''.'' @ k) = Inr w
                  \<and> map_of res k = Some w))"
proof -
  from foldE_entries [OF assms(1,2) _ assms(3)] obtain a0 a1 where
    step: "transformEntry R H obj F dtoName (k, f) a0 = Inr a1"
    and a0: "map_of a0 k = None" and r: "map_of res k = map_of a1 k"
    by auto
  from transformEntry_Inr(1) [OF step] show "hasOwnProperty obj k = Inr (ownProperty obj k)" .
  from transformEntry_Inr(2) [OF step] a0 r
  show "(\<not> ownProperty obj k \<and> \<not> (\<not> noCheck f \<and> (required f \<or> isNestedObject f))
            \<and> map_of res k = None)
       \<or> (ownProperty obj k \<and> getProp obj k = JUndefined \<and> \<not> (\<not> noCheck f \<and> required f)
            \<and> map_of res k = None)
       \<or> (ownProperty obj k \<and> getProp obj k = JNull \<and> (noCheck f \<or> nullable f)
            \<and> map_of res k = Some JNull)
       \<or> (ownProperty obj k \<and> getProp obj k \<noteq> JUndefined \<and> getProp obj k \<noteq> JNull
            \<and> (\<exists>w. transformField R H (getProp obj k) f (dtoName @ ''.'' @ k) = Inr w
                  \<and> map_of res k = Some w))"
    by (auto simp: map_of_assign)
qed

lemma result_not_shadowed:
  assumes "foldE (transformEntry R H obj F dtoName) fs [] = Inr res"
    and "distinct (map fst fs)"
  shows "map_of res ''hasOwnProperty'' = None"
proof (cases "''hasOwnProperty'' \<in> set (map fst fs)")
  case True
  then obtain f where f: "(''hasOwnProperty'', f) \<in> set fs" by auto
  from entry_outcome(1) [OF assms f] have "\<not> ownProperty obj ''hasOwnProperty''"
    using hasOwnProperty_Inr by blast
  with entry_outcome(2) [OF assms f] show ?thesis by auto
next
  case False
  from foldE_lookup [OF assms(1) False] show ?thesis by simp
qed

lemma result_keys:
  assumes "foldE (transformEntry R H obj F dtoName) fs [] = Inr res"
    and "distinct (map fst fs)" and "map_of res k = Some w"
  shows "\<exists>f. (k, f) \<in> set fs"
proof (rule ccontr)
  assume "\<not> (\<exists>f. (k, f) \<in> set fs)"
  then have "k \<notin> set (map fst fs)" by auto
  from foldE_lookup [OF assms(1) this] assms(3) show False by simp
qed

lemma entry_on_result:
  assumes "map_of res ''hasOwnProperty'' = None"
  shows "transformEntry R H (JObj None res) F dtoName (k, f) acc =
     (case map_of res k of
        None \<Rightarrow>
          if \<not> noCheck f \<and> (required f \<or> isNestedObject f) then
            Inl (TransformError (''Required field '' @ quoted k @ '' is missing'')
                   dtoName k JUndefined None None (JObj None res) (CtxFilter F))
          else Inr acc
      | Some w \<Rightarrow>
          if w = JUndefined then
            (if \<not> noCheck f \<and> required f then
               Inl (TransformError (''Required field '' @ quoted k @ '' cannot be undefined'')
                      dtoName k JUndefined None None (JObj None res) (CtxFilter F))
             else Inr acc)
          else if w = JNull then
            (if noCheck f \<or> nullable f then Inr (assign acc k JNull)
             else
               Inl (TransformError (''Field '' @ quoted k @ '' cannot be null'')
                      dtoName k JNull None None (JObj None res) (CtxFilter F)))
          else
            (case transformField R H w f (dtoName @ ''.'' @ k) of
               Inl e \<Rightarrow> Inl e
             | Inr w' \<Rightarrow> Inr (assign acc k w')))"
  using assms
  by (cases "map_of res k")
    (simp_all add: transformEntry_def hasOwnProperty_record getProp_def)

lemma entry_eval:
  assumes "hasOwnProperty obj k = Inr b"
  shows "transformEntry R H obj F dtoName (k, f) acc =
     (if \<not> b then
        (if \<not> noCheck f \<and> (required f \<or> isNestedObject f) then
           Inl (TransformError (''Required field '' @ quoted k @ '' is missing'')
                  dtoName k JUndefined None None obj (CtxFilter F))
         else Inr acc)
      else if getProp obj k = JUndefined then
        (if \<not> noCheck f \<and> required f then
           Inl (TransformError (''Required field '' @ quoted k @ '' cannot be undefined'')
                  dtoName k JUndefined None None obj (CtxFilter F))
         else Inr acc)
      else if getProp obj k = JNull then
        (if noCheck f \<or> nullable f then Inr (assign acc k JNull)
         else
           Inl (TransformError (''Field '' @ quoted k @ '' cannot be null'')
                  dtoName k JNull None None obj (CtxFilter F)))
      else
        (case transformField R H (getProp obj k) f (dtoName @ ''.'' @ k) of
           Inl e \<Rightarrow> Inl e
         | Inr w \<Rightarrow> Inr (assign acc k w)))"
  using assms by (simp add: transformEntry_def)

lemma entry_replay:
  assumes "foldE (transformEntry R H obj F dtoName) fs [] = Inr res"
    and "distinct (map fst fs)" and "(k, f) \<in> set fs"
  shows "transformEntry R H obj F dtoName (k, f) acc =
           Inr (case map_of res k of None \<Rightarrow> acc | Some w \<Rightarrow> assign acc k w)"
  using entry_outcome(2) [OF assms] entry_eval [OF entry_outcome(1) [OF assms], of R H F dtoName f acc]
  by auto

lemma foldE_replay:
  assumes "\<And>x acc r. x \<in> set fs \<Longrightarrow> body' x acc = Inr r \<Longrightarrow> body x acc = Inr r"
    and "foldE body' fs a = Inr res'"
  shows "foldE body fs a = Inr res'"
  using assms
proof (induction fs arbitrary: a)
  case Nil
  then show ?case by simp
next
  case (Cons x fs)
  from Cons.prems(2) obtain a1 where step: "body' x a = Inr a1"
    and rest: "foldE body' fs a1 = Inr res'"
    by (auto split: sum.splits)
  have "body x a = Inr a1"
    using Cons.prems(1) [OF _ step] by simp
  moreover have "foldE body fs a1 = Inr res'"
  proof (rule Cons.IH [OF _ rest])
    fix y acc r
    assume "y \<in> set fs" "body' y acc = Inr r"
    then show "body y acc = Inr r"
      using Cons.prems(1) [of y acc r] by simp
  qed
  ultimately show ?case by simp
qed

lemma record_again:
  assumes first: "foldE (transformEntry R H obj F dtoName) F [] = Inr res"
    and d: "distinct (map fst F)"
    and steps: "\<And>k f w w' q. (k, f) \<in> set F \<Longrightarrow> ownProperty obj k \<Longrightarrow>
        getProp obj k \<noteq> JUndefined \<Longrightarrow> getProp obj k \<noteq> JNull \<Longrightarrow>
        transformField R H (getProp obj k) f (dtoName @ ''.'' @ k) = Inr w \<Longrightarrow>
        transformField R H w f q = Inr w' \<Longrightarrow> w' = w"
    and second: "foldE (transformEntry R H (JObj None res) F' dtoName') F [] = Inr res'"
  shows "res' = res"
proof -
  note plain = result_not_shadowed [OF first d]
  have "foldE (transformEntry R H obj F dtoName) F [] = Inr res'"
  proof (rule foldE_replay [OF _ second])
    fix x acc r
    assume x: "x \<in> set F"
      and r: "transformEntry R H (JObj None res) F' dtoName' x acc = Inr r"
    obtain k f where kf: "x = (k, f)" by (cases x)
    from x kf have mem: "(k, f) \<in> set F" by simp
    note out = entry_outcome(2) [OF first d mem]
    note again = r [unfolded kf entry_on_result [OF plain]]
    note once = entry_replay [OF first d mem, of acc]
    from out consider
        (skip) "map_of res k = None"
      | (null) "map_of res k = Some JNull"
      | (val) w where "ownProperty obj k" "getProp obj k \<noteq> JUndefined" "getProp obj k \<noteq> JNull"
          "transformField R H (getProp obj k) f (dtoName @ ''.'' @ k) = Inr w"
          "map_of res k = Some w"
      by auto
    then show "transformEntry R H obj F dtoName x acc = Inr r"
    proof cases
      case skip
      with again once kf show ?thesis
        by (simp split: if_splits)
    next
      case null
      with again once kf show ?thesis
        by (simp split: if_splits)
    next
      case val
      from transformField_defined [OF val(4) val(2,3)] have w: "w \<noteq> JUndefined" "w \<noteq> JNull"
        by simp_all
      from again val(5) w obtain w' where
        t': "transformField R H w f (dtoName' @ ''.'' @ k) = Inr w'" and r': "r = assign acc k w'"
        by (auto split: sum.splits)
      from steps [OF mem val(1-4) t'] r' once val(5) kf show ?thesis
        by simp
    qed
  qed
  with first show ?thesis by simp
qed

lemma record_fix:
  assumes first: "foldE (transformEntry R H obj F dtoName) F [] = Inr res"
    and d: "distinct (map fst F)"
    and undef: "\<And>k f. (k, f) \<in> set F \<Longrightarrow> ownProperty obj k \<Longrightarrow> getProp obj k = JUndefined \<Longrightarrow>
        \<not> isNestedObject f \<or> noCheck f"
    and steps: "\<And>k f w q. (k, f) \<in> set F \<Longrightarrow> ownProperty obj k \<Longrightarrow>
        getProp obj k \<noteq> JUndefined \<Longrightarrow> getProp obj k \<noteq> JNull \<Longrightarrow>
        transformField R H (getProp obj k) f (dtoName @ ''.'' @ k) = Inr w \<Longrightarrow>
        transformField R H w f q = Inr w"
  shows "foldE (transformEntry R H (JObj None res) F' dtoName') F [] = Inr res"
proof -
  note plain = result_not_shadowed [OF first d]
  have "foldE (transformEntry R H (JObj None res) F' dtoName') F []
          = foldE (transformEntry R H obj F dtoName) F []"
  proof (rule foldE_cong [OF refl refl])
    fix x acc
    assume x: "x \<in> set F"
    obtain k f where kf: "x = (k, f)" by (cases x)
    from x kf have mem: "(k, f) \<in> set F" by simp
    note out = entry_outcome(2) [OF first d mem]
    note once = entry_replay [OF first d mem, of acc]
    from out undef [OF mem] consider
        (skip) "\<not> (\<not> noCheck f \<and> (required f \<or> isNestedObject f))" "map_of res k = None"
      | (null) "noCheck f \<or> nullable f" "map_of res k = Some JNull"
      | (val) w where "ownProperty obj k" "getProp obj k \<noteq> JUndefined" "getProp obj k \<noteq> JNull"
          "transformField R H (getProp obj k) f (dtoName @ ''.'' @ k) = Inr w"
          "map_of res k = Some w"
      by auto
    then have "transformEntry R H (JObj None res) F' dtoName' (k, f) acc
                 = Inr (case map_of res k of None \<Rightarrow> acc | Some w \<Rightarrow> assign acc k w)"
    proof cases
      case skip
      then show ?thesis
        by (simp add: entry_on_result [OF plain])
    next
      case null
      then show ?thesis
        by (simp add: entry_on_result [OF plain])
    next
      case val
      from transformField_defined [OF val(4) val(2,3)] have w: "w \<noteq> JUndefined" "w \<noteq> JNull"
        by simp_all
      from steps [OF mem val(1-4)] val(5) w show ?thesis
        by (simp add: entry_on_result [OF plain])
    qed
    with once kf show "transformEntry R H (JObj None res) F' dtoName' x acc
                         = transformEntry R H obj F dtoName x acc"
      by simp
  qed
  with first show ?thesis by simp
qed

subsection \<open>Applying transform to its own result\<close>

lemma mapiE_again:
  assumes steps: "\<And>x i j y y'. x \<in> set xs \<Longrightarrow> f i x = Inr y \<Longrightarrow> g j y = Inr y' \<Longrightarrow> y' = y"
    and "mapiE f i xs = Inr ys"
    and "mapiE g j ys = Inr ys'"
  shows "ys' = ys"
  using assms
proof (induction xs arbitrary: i j ys ys')
  case Nil
  then show ?case by simp
next
  case (Cons x xs)
  from mapiE_Inr_Cons [OF Cons.prems(2)] obtain y ys0 where ys: "ys = y # ys0"
    and first: "f i x = Inr y" and rest: "mapiE f (Suc i) xs = Inr ys0"
    by blast
  from mapiE_Inr_Cons [OF Cons.prems(3) [unfolded ys]] obtain y' ys0' where ys': "ys' = y' # ys0'"
    and second: "g j y = Inr y'" and rest': "mapiE g (Suc j) ys0 = Inr ys0'"
    by blast
  have "x \<in> set (x # xs)" by simp
  from Cons.prems(1) [OF this first second] have head: "y' = y" .
  have tail: "ys0' = ys0"
  proof (rule Cons.IH [OF _ rest rest'])
    fix x0 i0 j0 y0 y0'
    assume a: "x0 \<in> set xs" "f i0 x0 = Inr y0" "g j0 y0 = Inr y0'"
    from a(1) have "x0 \<in> set (x # xs)" by simp
    from Cons.prems(1) [OF this a(2,3)] show "y0' = y0" .
  qed
  from ys ys' head tail show ?case by simp
qed

lemma mapiE_fix:
  assumes steps: "\<And>x i j y. x \<in> set xs \<Longrightarrow> f i x = Inr y \<Longrightarrow> g j y = Inr y"
    and "mapiE f i xs = Inr ys"
  shows "mapiE g j ys = Inr ys"
  using assms
proof (induction xs arbitrary: i j ys)
  case Nil
  then show ?case by simp
next
  case (Cons x xs)
  from mapiE_Inr_Cons [OF Cons.prems(2)] obtain y ys0 where ys: "ys = y # ys0"
    and first: "f i x = Inr y" and rest: "mapiE f (Suc i) xs = Inr ys0"
    by blast
  have "x \<in> set (x # xs)" by simp
  from Cons.prems(1) [OF this first] have head: "g j y = Inr y" .
  have "mapiE g (Suc j) ys0 = Inr ys0"
  proof (rule Cons.IH [OF _ rest])
    fix x0 i0 j0 y0
    assume a: "x0 \<in> set xs" "f i0 x0 = Inr y0"
    from a(1) have "x0 \<in> set (x # xs)" by simp
    from Cons.prems(1) [OF this a(2)] show "g j0 y0 = Inr y0" .
  qed
  with ys head show ?case by simp
qed

lemma transformItem_cases:
  assumes "transformItem R H v fm p i x = Inr y"
  shows "x \<noteq> JUndefined"
    and "(x = JNull \<and> nullable fm \<and> y = JNull)
       \<or> (\<not> (x = JNull \<and> nullable fm) \<and> typeCheck fm = 4
            \<and> (\<exists>cf. transformDtoFilter R (firstType (ftype fm)) = Inr cf
                  \<and> transform R H x cf (p @ ''['' @ show_nat i @ '']'') = Inr y))
       \<or> (\<not> (x = JNull \<and> nullable fm) \<and> typeCheck fm \<noteq> 4
            \<and> transformPrimitive H x fm (p @ ''['' @ show_nat i @ '']'') = Inr y)"
  using assms by (auto simp: transformItem_def split: if_splits sum.splits)

lemma transformItem_again:
  assumes first: "transformItem R H v fm p i x = Inr y"
    and second: "transformItem R H v' fm p' j y = Inr y'"
    and step: "\<And>cf. typeCheck fm = 4 \<Longrightarrow> x \<noteq> JUndefined \<Longrightarrow> \<not> (x = JNull \<and> nullable fm) \<Longrightarrow>
        transformDtoFilter R (firstType (ftype fm)) = Inr cf \<Longrightarrow>
        transform R H x cf (p @ ''['' @ show_nat i @ '']'') = Inr y \<Longrightarrow>
        transform R H y cf (p' @ ''['' @ show_nat j @ '']'') = Inr y' \<Longrightarrow> y' = y"
  shows "y' = y"
proof -
  note x = transformItem_cases(1) [OF first]
  from transformItem_cases(2) [OF first] consider
      (null) "y = JNull" "nullable fm"
    | (cls) cf where "\<not> (x = JNull \<and> nullable fm)" "typeCheck fm = 4"
        "transformDtoFilter R (firstType (ftype fm)) = Inr cf"
        "transform R H x cf (p @ ''['' @ show_nat i @ '']'') = Inr y"
    | (prim) "typeCheck fm \<noteq> 4" "transformPrimitive H x fm (p @ ''['' @ show_nat i @ '']'') = Inr y"
    by auto
  then show ?thesis
  proof cases
    case null
    with second show ?thesis
      by (simp add: transformItem_def)
  next
    case cls
    show ?thesis
    proof (cases "y = JNull \<and> nullable fm")
      case True
      with second show ?thesis by (simp add: transformItem_def)
    next
      case False
      from transform_result(1) [OF cls(4)] have "y \<noteq> JUndefined" .
      with second False cls(2,3)
      have "transform R H y cf (p' @ ''['' @ show_nat j @ '']'') = Inr y'"
        by (auto simp: transformItem_def)
      from step [OF cls(2) x cls(1,3,4) this] show ?thesis .
    qed
  next
    case prim
    note again = transformPrimitive_again [OF prim(2), of "p' @ ''['' @ show_nat j @ '']''"]
    show ?thesis
    proof (cases "y = JNull \<and> nullable fm")
      case True
      with second show ?thesis by (simp add: transformItem_def)
    next
      case False
      from transformItem_defined [OF first] have "y \<noteq> JUndefined" .
      with second False prim(1) again show ?thesis
        by (auto simp: transformItem_def)
    qed
  qed
qed

lemma transformItem_fix:
  assumes first: "transformItem R H v fm p i x = Inr y"
    and step: "\<And>cf q. typeCheck fm = 4 \<Longrightarrow> x \<noteq> JUndefined \<Longrightarrow> \<not> (x = JNull \<and> nullable fm) \<Longrightarrow>
        transformDtoFilter R (firstType (ftype fm)) = Inr cf \<Longrightarrow>
        transform R H x cf (p @ ''['' @ show_nat i @ '']'') = Inr y \<Longrightarrow>
        transform R H y cf q = Inr y"
  shows "transformItem R H v' fm p' j y = Inr y"
proof -
  note x = transformItem_cases(1) [OF first]
  note y = transformItem_defined [OF first]
  from transformItem_cases(2) [OF first] consider
      (null) "y = JNull" "nullable fm"
    | (cls) cf where "\<not> (x = JNull \<and> nullable fm)" "typeCheck fm = 4"
        "transformDtoFilter R (firstType (ftype fm)) = Inr cf"
        "transform R H x cf (p @ ''['' @ show_nat i @ '']'') = Inr y"
    | (prim) "typeCheck fm \<noteq> 4" "transformPrimitive H x fm (p @ ''['' @ show_nat i @ '']'') = Inr y"
    by auto
  then show ?thesis
  proof cases
    case null
    then show ?thesis
      by (simp add: transformItem_def)
  next
    case cls
    from step [OF cls(2) x cls(1,3,4)]
    have "transform R H y cf (p' @ ''['' @ show_nat j @ '']'') = Inr y" .
    with y cls(2,3) show ?thesis
      by (simp add: transformItem_def)
  next
    case prim
    from transformPrimitive_again [OF prim(2), of "p' @ ''['' @ show_nat j @ '']''"] y prim(1)
    show ?thesis
      by (simp add: transformItem_def)
  qed
qed

lemma transform_again_mutual:
  "\<forall>r r' n'. wf_filter F \<longrightarrow> transform R H obj F n = Inr r \<longrightarrow>
     transform R H r F n' = Inr r' \<longrightarrow> r' = r"
  "\<forall>w w' p'. wf_filter (nestedFields fm) \<longrightarrow> transformField R H v fm p = Inr w \<longrightarrow>
     transformField R H w fm p' = Inr w' \<longrightarrow> w' = w"
proof (induction R H obj F n and R H v fm p rule: transform_transformField.induct)
  case (1 R H obj F n)
  show ?case
  proof (intro allI impI)
    fix r r' n'
    assume wf: "wf_filter F" and t1: "transform R H obj F n = Inr r"
      and t2: "transform R H r F n' = Inr r'"
    show "r' = r"
    proof (cases "obj = JUndefined \<or> obj = JNull")
      case True
      with t1 have "r = JNull"
        by (subst (asm) transform_unfold) simp
      with t2 show ?thesis
        by (simp add: transform_null_root)
    next
      case root: False
      show ?thesis
      proof (cases "isArray (materialize obj)")
        case True
        from t1 root True obtain ys where r: "r = JArr ys"
          and m1: "mapiE (\<lambda>index item. transform R H item F n) 0 (elements (materialize obj))
                     = Inr ys"
          by (subst (asm) transform_unfold) (auto split: sum.splits)
        from t2 [unfolded r] obtain ys' where r': "r' = JArr ys'"
          and m2: "mapiE (\<lambda>index item. transform R H item F n') 0 ys = Inr ys'"
          by (subst (asm) transform_unfold) (auto split: sum.splits)
        have "ys' = ys"
        proof (rule mapiE_again [OF _ m1 m2])
          fix x i j y y'
          assume "x \<in> set (elements (materialize obj))" "transform R H x F n = Inr y"
            "transform R H y F n' = Inr y'"
          with "1.IH"(1) [OF root True] wf show "y' = y"
            by blast
        qed
        with r r' show ?thesis by simp
      next
        case False
        from t1 root False obtain res where r: "r = JObj None res"
          and f1: "foldE (transformEntry R H (materialize obj) F n) F [] = Inr res"
          by (subst (asm) transform_unfold) (auto split: sum.splits)
        from t2 [unfolded r] obtain res' where r': "r' = JObj None res'"
          and f2: "foldE (transformEntry R H (JObj None res) F n') F [] = Inr res'"
          by (subst (asm) transform_unfold) (auto split: sum.splits)
        have d: "distinct (map fst F)"
          using wf by (subst (asm) wf_filter.simps) simp
        have "res' = res"
        proof (rule record_again [OF f1 d _ f2])
          fix k f w w' q
          assume a: "(k, f) \<in> set F" "ownProperty (materialize obj) k"
            "getProp (materialize obj) k \<noteq> JUndefined" "getProp (materialize obj) k \<noteq> JNull"
            "transformField R H (getProp (materialize obj) k) f (n @ ''.'' @ k) = Inr w"
            "transformField R H w f q = Inr w'"
          from entry_outcome(1) [OF f1 d a(1)] a(2)
          have h: "hasOwnProperty (materialize obj) k = Inr True" by simp
          have nb: "\<not> \<not> True" by simp
          from "1.IH"(2) [OF root False a(1) refl h nb a(3,4)] wf_filter_entry(2) [OF wf a(1)] a(5,6)
          show "w' = w" by blast
        qed
        with r r' show ?thesis by simp
      qed
    qed
  qed
next
  case (2 R H v fm p)
  show ?case
  proof (intro allI impI)
    fix w w' p'
    assume wf: "wf_filter (nestedFields fm)" and t1: "transformField R H v fm p = Inr w"
      and t2: "transformField R H w fm p' = Inr w'"
    show "w' = w"
    proof (cases "v = JUndefined")
      case True
      with t1 transformField_undefined [of R H fm p w] have "w = JUndefined" "\<not> required fm"
        by simp_all
      with t2 transformField_undefined_optional [of fm R H p'] show ?thesis
        by simp
    next
      case u: False
      show ?thesis
      proof (cases "v = JNull \<and> nullable fm")
        case True
        with t1 transformField_null_nullable [of fm R H p] have "w = JNull" by simp
        with t2 True transformField_null_nullable [of fm R H p'] show ?thesis by simp
      next
        case nn: False
        show ?thesis
        proof (cases "isNestedObject fm")
          case True
          from t1 transformField_nested [OF True u, of R H p] nn
          have o: "\<not> (\<not> typeofObject v \<or> v = JNull)"
            and p1: "transform R H v (nestedFields fm) p = Inr w"
            by (auto split: if_splits sum.splits option.splits)
          from o have vn: "v \<noteq> JNull" by simp
          from transform_result(2) [OF p1 u vn] have w: "w \<noteq> JUndefined" "w \<noteq> JNull"
            by auto
          from t2 transformField_nested [OF True w(1), of R H p'] w(2)
          have "transform R H w (nestedFields fm) p' = Inr w'"
            by (auto split: if_splits sum.splits option.splits)
          with "2.IH"(1) [OF u nn True o] wf p1 show ?thesis
            by blast
        next
          case False
          note k1 = transformField_kinds [OF u nn False, of R H p]
          consider (prim) "typeCheck fm = 1"
            | (cls) "typeCheck fm \<noteq> 1" "typeCheck fm = 2 \<or> typeCheck fm = 32"
            | (arr) "typeCheck fm \<noteq> 1" "\<not> (typeCheck fm = 2 \<or> typeCheck fm = 32)"
                "typeCheck fm = 4 \<or> typeCheck fm = 16"
            | (enum) "typeCheck fm \<noteq> 1" "\<not> (typeCheck fm = 2 \<or> typeCheck fm = 32)"
                "\<not> (typeCheck fm = 4 \<or> typeCheck fm = 16)" "typeCheck fm = 8"
            | (other) "typeCheck fm \<noteq> 1" "\<not> (typeCheck fm = 2 \<or> typeCheck fm = 32)"
                "\<not> (typeCheck fm = 4 \<or> typeCheck fm = 16)" "typeCheck fm \<noteq> 8"
            by blast
          then show ?thesis
          proof cases
            case prim
            with t1 k1 have p1: "transformPrimitive H v fm p = Inr w" by simp
            from transformPrimitive_result [OF p1] u nn
            have w: "w \<noteq> JUndefined" "\<not> (w = JNull \<and> nullable fm)"
              using validatePrimitiveType_defined by blast+
            from t2 transformField_kinds [OF w False, of R H p'] prim
            have "transformPrimitive H w fm p' = Inr w'" by simp
            with transformPrimitive_again [OF p1, of p'] show ?thesis by simp
          next
            case cls
            from t1 k1 cls obtain cf where o: "\<not> (\<not> typeofObject v \<or> v = JNull)"
              and cf: "transformDtoFilter R (ftype fm) = Inr cf"
              and p1: "transform R H v cf p = Inr w"
              by (auto split: if_splits sum.splits)
            from o have vn: "v \<noteq> JNull" by simp
            from transform_result(2) [OF p1 u vn] have w: "w \<noteq> JUndefined" "w \<noteq> JNull"
              "\<not> (w = JNull \<and> nullable fm)" "typeofObject w"
              by auto
            from t2 transformField_kinds [OF w(1,3) False, of R H p'] cls cf w(2,4)
            have p2: "transform R H w cf p' = Inr w'" by simp
            have c: "(if isNestedObject fm then Inr (nestedFields fm)
                      else transformDtoFilter R (ftype fm)) = Inr cf"
              using False cf by simp
            from "2.IH"(2) [OF u nn False cls(1,2) o c] transformDtoFilter_wf [OF cf] p1 p2
            show ?thesis by blast
          next
            case arr
            from t1 k1 arr obtain ys where a: "\<not> \<not> isArray v"
              and m1: "mapiE (transformItem R H v fm p) 0 (elements v) = Inr ys"
              and w: "w = JArr ys"
              by (auto split: if_splits sum.splits)
            have wn: "w \<noteq> JUndefined" "\<not> (w = JNull \<and> nullable fm)"
              using w by simp_all
            from t2 transformField_kinds [OF wn False, of R H p'] arr w
            obtain ys' where m2: "mapiE (transformItem R H w fm p') 0 ys = Inr ys'"
              and w': "w' = JArr ys'"
              by (auto split: if_splits sum.splits)
            have "ys' = ys"
            proof (rule mapiE_again [OF _ m1 m2])
              fix x i j y y'
              assume b: "x \<in> set (elements v)" "transformItem R H v fm p i x = Inr y"
                "transformItem R H w fm p' j y = Inr y'"
              show "y' = y"
              proof (rule transformItem_again [OF b(2,3)])
                fix cf
                assume c: "typeCheck fm = 4" "x \<noteq> JUndefined" "\<not> (x = JNull \<and> nullable fm)"
                  "transformDtoFilter R (firstType (ftype fm)) = Inr cf"
                  "transform R H x cf (p @ ''['' @ show_nat i @ '']'') = Inr y"
                  "transform R H y cf (p' @ ''['' @ show_nat j @ '']'') = Inr y'"
                from "2.IH"(3) [OF u nn False arr(1,2,3) a b(1) c(2,3,1,4)]
                  transformDtoFilter_wf [OF c(4)] c(5,6)
                show "y' = y" by blast
              qed
            qed
            with w w' show ?thesis by simp
          next
            case enum
            with t1 k1 have "w = v"
              by (auto split: option.splits if_splits)
            with t2 transformField_kinds [OF u nn False, of R H p'] enum show ?thesis
              by (auto split: option.splits if_splits)
          next
            case other
            with t1 k1 show ?thesis by simp
          qed
        qed
      qed
    qed
  qed
qed

lemma validateNested_None:
  assumes "validateNested v fm fieldPath nfs = None" and "(k, nf) \<in> set nfs"
  shows "hasOwnProperty v k = Inr (ownProperty v k)"
    and "if ownProperty v k then fst (validateFieldType (getProp v k) nf) else \<not> required nf"
  using assms
proof (induction nfs)
  case Nil
  {
    case 1
    then show ?case by simp
  next
    case 2
    then show ?case by simp
  }
next
  case (Cons x nfs)
  obtain k' nf' where x: "x = (k', nf')" by (cases x)
  {
    case 1
    from 1(1) x obtain b where b: "hasOwnProperty v k' = Inr b"
      by (cases "hasOwnProperty v k'") auto
    note h = hasOwnProperty_Inr [OF b]
    from 1(1) x b have rest: "validateNested v fm fieldPath nfs = None"
      by (auto simp: isFieldRequired_def split: if_splits)
    show ?case
    proof (cases "(k, nf) = x")
      case True
      with x b h show ?thesis by simp
    next
      case False
      with 1(2) have "(k, nf) \<in> set nfs" by simp
      from Cons.IH(1) [OF rest this] show ?thesis .
    qed
  next
    case 2
    from 2(1) x obtain b where b: "hasOwnProperty v k' = Inr b"
      by (cases "hasOwnProperty v k'") auto
    note h = hasOwnProperty_Inr [OF b]
    from 2(1) x b have rest: "validateNested v fm fieldPath nfs = None"
      by (auto simp: isFieldRequired_def split: if_splits)
    show ?case
    proof (cases "(k, nf) = x")
      case True
      with 2(1) x b h show ?thesis
        by (auto simp: isFieldRequired_def split: if_splits)
    next
      case False
      with 2(2) have "(k, nf) \<in> set nfs" by simp
      from Cons.IH(2) [OF rest this] show ?thesis .
    qed
  }
qed

lemma validateFieldType_result:
  assumes t: "transformField R H x nf q = Inr w" and x: "x \<noteq> JUndefined" "x \<noteq> JNull"
    and valid: "fst (validateFieldType x nf)"
    and kind: "isNestedObject nf = (typeCheck nf = 32 \<or> typeCheck nf = 40)"
  shows "fst (validateFieldType w nf)"
proof (cases "noCheck nf")
  case True
  then show ?thesis by (simp add: validateFieldType_def)
next
  case nc: False
  from x have nn: "\<not> (x = JNull \<and> nullable nf)" by simp
  show ?thesis
  proof (cases "isNestedObject nf")
    case True
    with kind valid nc have tc: "typeCheck nf = 32"
      by (auto simp: validateFieldType_def)
    from t transformField_nested [OF True x(1), of R H q] x(2)
    have "transform R H x (nestedFields nf) q = Inr w"
      by (auto split: if_splits sum.splits option.splits)
    from transform_result(2) [OF this x] have "typeofObject w \<and> w \<noteq> JNull" by auto
    with tc nc show ?thesis by (simp add: validateFieldType_def)
  next
    case False
    note k1 = transformField_kinds [OF x(1) nn False, of R H q]
    from False kind have not32: "typeCheck nf \<noteq> 32" by simp
    consider (prim) "typeCheck nf = 1"
      | (cls) "typeCheck nf \<noteq> 1" "typeCheck nf = 2"
      | (arr) "typeCheck nf \<noteq> 1" "typeCheck nf \<noteq> 2" "typeCheck nf = 4 \<or> typeCheck nf = 16"
      | (enum) "typeCheck nf \<noteq> 1" "typeCheck nf \<noteq> 2"
          "\<not> (typeCheck nf = 4 \<or> typeCheck nf = 16)" "typeCheck nf = 8"
      | (other) "typeCheck nf \<noteq> 1" "typeCheck nf \<noteq> 2"
          "\<not> (typeCheck nf = 4 \<or> typeCheck nf = 16)" "typeCheck nf \<noteq> 8"
      by blast
    then show ?thesis
    proof cases
      case prim
      with valid nc have "validatePrimitiveType x (expectedType nf)"
        by (simp add: validateFieldType_scalar)
      with t k1 prim have "w = x"
        by (simp add: transformPrimitive_valid)
      with valid show ?thesis by simp
    next
      case cls
      with t k1 not32 obtain cf where "transform R H x cf q = Inr w"
        by (auto split: if_splits sum.splits)
      from transform_result(2) [OF this x] have "typeofObject w \<and> w \<noteq> JNull" by auto
      with cls nc show ?thesis by (simp add: validateFieldType_def)
    next
      case arr
      with t k1 not32 obtain ys where "w = JArr ys"
        by (auto split: if_splits sum.splits)
      with arr nc not32 show ?thesis by (auto simp: validateFieldType_def)
    next
      case enum
      with t k1 not32 have "w = x"
        by (auto split: option.splits if_splits)
      with valid show ?thesis by simp
    next
      case other
      with valid nc not32 show ?thesis
        by (auto simp: validateFieldType_def)
    qed
  qed
qed

lemma nested_secondary_again:
  assumes first: "foldE (transformEntry R H v nfs p) nfs [] = Inr res"
    and wf: "wf_filter nfs"
    and undef: "\<And>k nf. (k, nf) \<in> set nfs \<Longrightarrow> ownProperty v k \<Longrightarrow> getProp v k = JUndefined \<Longrightarrow>
        \<not> required nf"
    and second: "validateNested v fm p nfs = None"
  shows "validateNested (JObj None res) fm p' nfs = None"
proof -
  have d: "distinct (map fst nfs)"
    using wf by (subst (asm) wf_filter.simps) simp
  note plain = result_not_shadowed [OF first d]
  have own: "\<And>k. ownProperty (JObj None res) k = (map_of res k \<noteq> None)"
    by (simp add: ownProperty_def)
  have get: "\<And>k w. map_of res k = Some w \<Longrightarrow> getProp (JObj None res) k = w"
    by (simp add: getProp_def)
  show ?thesis
  proof (rule validateNested_accepts)
    show "JObj None res \<noteq> JUndefined" "JObj None res \<noteq> JNull" by simp_all
    show "\<not> ownProperty (JObj None res) ''hasOwnProperty''"
      using plain by (simp add: own)
    show "\<forall>(k, nf) \<in> set nfs.
            if ownProperty (JObj None res) k
            then fst (validateFieldType (getProp (JObj None res) k) nf) else \<not> required nf"
    proof (clarify)
      fix k nf
      assume mem: "(k, nf) \<in> set nfs"
      note sec = validateNested_None(2) [OF second mem]
      note kind = wf_filter_entry(3) [OF wf mem]
      from entry_outcome(2) [OF first d mem] undef [OF mem] consider
          (skip) "\<not> ownProperty v k" "map_of res k = None"
        | (undefined) "\<not> required nf" "map_of res k = None"
        | (null) "ownProperty v k" "getProp v k = JNull" "map_of res k = Some JNull"
        | (val) w where "ownProperty v k" "getProp v k \<noteq> JUndefined" "getProp v k \<noteq> JNull"
            "transformField R H (getProp v k) nf (p @ ''.'' @ k) = Inr w"
            "map_of res k = Some w"
        by auto
      then show "if ownProperty (JObj None res) k
            then fst (validateFieldType (getProp (JObj None res) k) nf) else \<not> required nf"
      proof cases
        case skip
        with sec show ?thesis by (simp add: own)
      next
        case undefined
        then show ?thesis by (simp add: own)
      next
        case null
        with sec get [OF null(3)] show ?thesis by (simp add: own)
      next
        case val
        from sec val(1) have "fst (validateFieldType (getProp v k) nf)" by simp
        from validateFieldType_result [OF val(4) val(2,3) this kind] get [OF val(5)] val(5)
        show ?thesis by (simp add: own)
      qed
    qed
  qed
qed

lemma regular_record:
  assumes "regular R obj F" and "\<not> (obj = JUndefined \<or> obj = JNull)"
    and "\<not> isArray (materialize obj)" and "(k, f) \<in> set F" and "ownProperty (materialize obj) k"
  shows "getProp (materialize obj) k = JUndefined \<Longrightarrow> \<not> isNestedObject f \<or> noCheck f"
    and "getProp (materialize obj) k \<noteq> JUndefined \<Longrightarrow>
           regularField R (getProp (materialize obj) k) f"
  using assms by (subst (asm) regular.simps, auto)+

lemma regular_array:
  assumes "regular R obj F" and "\<not> (obj = JUndefined \<or> obj = JNull)"
    and "isArray (materialize obj)" and "x \<in> set (elements (materialize obj))"
  shows "regular R x F"
  using assms by (subst (asm) regular.simps) auto

lemma regularField_nested:
  assumes "regularField R v fm" and "isNestedObject fm" and "typeofObject v" and "v \<noteq> JNull"
  shows "\<not> isArray v" and "materialize v = v" and "regular R v (nestedFields fm)"
    and "\<And>k nf. (k, nf) \<in> set (nestedFields fm) \<Longrightarrow> ownProperty v k \<Longrightarrow>
           getProp v k = JUndefined \<Longrightarrow> \<not> required nf"
  using assms by (subst (asm) regularField.simps, auto)+

lemma transform_fix_mutual:
  "\<forall>r n'. wf_filter F \<longrightarrow> regular R obj F \<longrightarrow> transform R H obj F n = Inr r \<longrightarrow>
     transform R H r F n' = Inr r"
  "\<forall>w p'. wf_filter (nestedFields fm) \<longrightarrow>
     isNestedObject fm = (typeCheck fm = 32 \<or> typeCheck fm = 40) \<longrightarrow>
     regularField R v fm \<longrightarrow> transformField R H v fm p = Inr w \<longrightarrow>
     transformField R H w fm p' = Inr w"
proof (induction R H obj F n and R H v fm p rule: transform_transformField.induct)
  case (1 R H obj F n)
  show ?case
  proof (intro allI impI)
    fix r n'
    assume wf: "wf_filter F" and reg: "regular R obj F"
      and t1: "transform R H obj F n = Inr r"
    show "transform R H r F n' = Inr r"
    proof (cases "obj = JUndefined \<or> obj = JNull")
      case True
      with t1 have "r = JNull"
        by (subst (asm) transform_unfold) simp
      then show ?thesis
        by (simp add: transform_null_root)
    next
      case root: False
      show ?thesis
      proof (cases "isArray (materialize obj)")
        case True
        from t1 root True obtain ys where r: "r = JArr ys"
          and m1: "mapiE (\<lambda>index item. transform R H item F n) 0 (elements (materialize obj))
                     = Inr ys"
          by (subst (asm) transform_unfold) (auto split: sum.splits)
        have "mapiE (\<lambda>index item. transform R H item F n') 0 ys = Inr ys"
        proof (rule mapiE_fix [OF _ m1])
          fix x i j y
          assume x: "x \<in> set (elements (materialize obj))" and "transform R H x F n = Inr y"
          with "1.IH"(1) [OF root True x] wf regular_array [OF reg root True x]
          show "transform R H y F n' = Inr y"
            by blast
        qed
        then show ?thesis
          unfolding r by (subst transform_unfold) simp
      next
        case False
        from t1 root False obtain res where r: "r = JObj None res"
          and f1: "foldE (transformEntry R H (materialize obj) F n) F [] = Inr res"
          by (subst (asm) transform_unfold) (auto split: sum.splits)
        have d: "distinct (map fst F)"
          using wf by (subst (asm) wf_filter.simps) simp
        have "foldE (transformEntry R H (JObj None res) F n') F [] = Inr res"
        proof (rule record_fix [OF f1 d])
          fix k f
          assume "(k, f) \<in> set F" "ownProperty (materialize obj) k"
            "getProp (materialize obj) k = JUndefined"
          then show "\<not> isNestedObject f \<or> noCheck f"
            by (rule regular_record(1) [OF reg root False])
        next
          fix k f w q
          assume a: "(k, f) \<in> set F" "ownProperty (materialize obj) k"
            "getProp (materialize obj) k \<noteq> JUndefined" "getProp (materialize obj) k \<noteq> JNull"
            "transformField R H (getProp (materialize obj) k) f (n @ ''.'' @ k) = Inr w"
          from entry_outcome(1) [OF f1 d a(1)] a(2)
          have h: "hasOwnProperty (materialize obj) k = Inr True" by simp
          have nb: "\<not> \<not> True" by simp
          from "1.IH"(2) [OF root False a(1) refl h nb a(3,4)] wf_filter_entry(2,3) [OF wf a(1)]
            regular_record(2) [OF reg root False a(1,2,3)] a(5)
          show "transformField R H w f q = Inr w" by blast
        qed
        then show ?thesis
          unfolding r by (simp add: transform_record)
      qed
    qed
  qed
next
  case (2 R H v fm p)
  show ?case
  proof (intro allI impI)
    fix w p'
    assume wf: "wf_filter (nestedFields fm)"
      and kind: "isNestedObject fm = (typeCheck fm = 32 \<or> typeCheck fm = 40)"
      and reg: "regularField R v fm" and t1: "transformField R H v fm p = Inr w"
    show "transformField R H w fm p' = Inr w"
    proof (cases "v = JUndefined")
      case True
      with t1 transformField_undefined [of R H fm p w] have "w = JUndefined" "\<not> required fm"
        by simp_all
      with transformField_undefined_optional [of fm R H p'] show ?thesis
        by simp
    next
      case u: False
      show ?thesis
      proof (cases "v = JNull \<and> nullable fm")
        case True
        with t1 transformField_null_nullable [of fm R H p] have "w = JNull" by simp
        with True transformField_null_nullable [of fm R H p'] show ?thesis by simp
      next
        case nn: False
        show ?thesis
        proof (cases "isNestedObject fm")
          case True
          from t1 transformField_nested [OF True u, of R H p] nn
          have o: "\<not> (\<not> typeofObject v \<or> v = JNull)"
            and p1: "transform R H v (nestedFields fm) p = Inr w"
            and s1: "validateNested v fm p (nestedFields fm) = None"
            by (auto split: if_splits sum.splits option.splits)
          from o have vo: "typeofObject v" and vn: "v \<noteq> JNull" by simp_all
          note rn = regularField_nested [OF reg True vo vn]
          have root: "\<not> (v = JUndefined \<or> v = JNull)"
            using u vn by simp
          from p1 root rn(1,2) obtain res where w: "w = JObj None res"
            and f1: "foldE (transformEntry R H v (nestedFields fm) p) (nestedFields fm) []
                       = Inr res"
            by (subst (asm) transform_unfold) (auto split: sum.splits)
          from "2.IH"(1) [OF u nn True o] wf rn(3) p1
          have p2: "transform R H w (nestedFields fm) p' = Inr w"
            by blast
          have s2: "validateNested w fm p' (nestedFields fm) = None"
            unfolding w by (rule nested_secondary_again [OF f1 wf rn(4) s1])
          have "typeofObject w" "w \<noteq> JNull"
            using w by simp_all
          from transformField_nested_object [OF True this, of R H p'] p2 s2 show ?thesis
            by simp
        next
          case False
          note k1 = transformField_kinds [OF u nn False, of R H p]
          from False kind have not32: "typeCheck fm \<noteq> 32" by simp
          consider (prim) "typeCheck fm = 1"
            | (cls) "typeCheck fm \<noteq> 1" "typeCheck fm = 2"
            | (arr) "typeCheck fm \<noteq> 1" "typeCheck fm \<noteq> 2" "typeCheck fm = 4 \<or> typeCheck fm = 16"
            | (enum) "typeCheck fm \<noteq> 1" "typeCheck fm \<noteq> 2"
                "\<not> (typeCheck fm = 4 \<or> typeCheck fm = 16)" "typeCheck fm = 8"
            | (other) "typeCheck fm \<noteq> 1" "typeCheck fm \<noteq> 2"
                "\<not> (typeCheck fm = 4 \<or> typeCheck fm = 16)" "typeCheck fm \<noteq> 8"
            by blast
          then show ?thesis
          proof cases
            case prim
            with t1 k1 have p1: "transformPrimitive H v fm p = Inr w" by simp
            from transformPrimitive_result [OF p1] u nn
            have w: "w \<noteq> JUndefined" "\<not> (w = JNull \<and> nullable fm)"
              using validatePrimitiveType_defined by blast+
            from transformField_kinds [OF w False, of R H p'] prim
              transformPrimitive_again [OF p1, of p']
            show ?thesis by simp
          next
            case cls
            from t1 k1 cls obtain cf where o: "\<not> (\<not> typeofObject v \<or> v = JNull)"
              and cf: "transformDtoFilter R (ftype fm) = Inr cf"
              and p1: "transform R H v cf p = Inr w"
              by (auto split: if_splits sum.splits)
            from o have vn: "v \<noteq> JNull" by simp
            from transform_result(2) [OF p1 u vn] have w: "w \<noteq> JUndefined" "w \<noteq> JNull"
              "\<not> (w = JNull \<and> nullable fm)" "typeofObject w"
              by auto
            from reg False cls(2) o cf have rv: "regular R v cf"
              by (subst (asm) regularField.simps) simp
            have c: "(if isNestedObject fm then Inr (nestedFields fm)
                      else transformDtoFilter R (ftype fm)) = Inr cf"
              using False cf by simp
            have tc: "typeCheck fm = 2 \<or> typeCheck fm = 32"
              using cls(2) by simp
            from "2.IH"(2) [OF u nn False cls(1) tc o c] transformDtoFilter_wf [OF cf] rv p1
            have "transform R H w cf p' = Inr w" by blast
            with transformField_kinds [OF w(1,3) False, of R H p'] cls cf w(2,4)
            show ?thesis by simp
          next
            case arr
            from t1 k1 arr not32 obtain ys where a: "\<not> \<not> isArray v"
              and m1: "mapiE (transformItem R H v fm p) 0 (elements v) = Inr ys"
              and w: "w = JArr ys"
              by (auto split: if_splits sum.splits)
            have wn: "w \<noteq> JUndefined" "\<not> (w = JNull \<and> nullable fm)"
              using w by simp_all
            have tc: "\<not> (typeCheck fm = 2 \<or> typeCheck fm = 32)"
              using arr(2) not32 by simp
            have "mapiE (transformItem R H w fm p') 0 ys = Inr ys"
            proof (rule mapiE_fix [OF _ m1])
              fix x i j y
              assume b: "x \<in> set (elements v)" "transformItem R H v fm p i x = Inr y"
              show "transformItem R H w fm p' j y = Inr y"
              proof (rule transformItem_fix [OF b(2)])
                fix cf q
                assume c: "typeCheck fm = 4" "x \<noteq> JUndefined" "\<not> (x = JNull \<and> nullable fm)"
                  "transformDtoFilter R (firstType (ftype fm)) = Inr cf"
                  "transform R H x cf (p @ ''['' @ show_nat i @ '']'') = Inr y"
                from reg False arr(2) c(1,4) b(1) have rx: "regular R x cf"
                  by (subst (asm) regularField.simps) auto
                from "2.IH"(3) [OF u nn False arr(1) tc arr(3) a b(1) c(2,3,1,4)]
                  transformDtoFilter_wf [OF c(4)] rx c(5)
                show "transform R H y cf q = Inr y" by blast
              qed
            qed
            with transformField_kinds [OF wn False, of R H p'] arr not32 w show ?thesis
              by auto
          next
            case enum
            with t1 k1 not32 obtain vs where "fenum fm = Some vs" "arrayIncludes vs v" "w = v"
              by (auto split: option.splits if_splits)
            with transformField_kinds [OF u nn False, of R H p'] enum not32 show ?thesis
              by simp
          next
            case other
            with t1 k1 not32 show ?thesis by simp
          qed
        qed
      qed
    qed
  qed
qed

subsection \<open>Conformant values\<close>

lemma deepEqual_same: "a = b \<Longrightarrow> deepEqual a b"
proof (induction a b rule: deepEqual.induct)
  case (1 a b)
  show ?case
  proof (cases "isPlainRecord a \<and> isPlainRecord b")
    case True
    have "\<forall>k \<in> set (map fst (ownProps a)). deepEqual (getProp a k) (getProp b k)"
    proof
      fix k
      assume "k \<in> set (map fst (ownProps a))"
      from "1.IH"(1) [OF True this] "1.prems" show "deepEqual (getProp a k) (getProp b k)"
        by simp
    qed
    with True "1.prems" show ?thesis
      by (subst deepEqual.simps) simp
  next
    case False
    show ?thesis
    proof (cases "isArray a \<and> isArray b")
      case arr: True
      have "\<forall>(x, y) \<in> set (zip (elements a) (elements b)). deepEqual x y"
      proof (clarify)
        fix x y
        assume m: "(x, y) \<in> set (zip (elements a) (elements b))"
        with "1.prems" have "x = y"
          by (simp add: zip_same)
        from "1.IH"(2) [OF False arr m refl this] show "deepEqual x y" .
      qed
      with False arr "1.prems" show ?thesis
        by (subst deepEqual.simps) simp
    next
      case other: False
      with False "1.prems" show ?thesis
        by (subst deepEqual.simps) simp
    qed
  qed
qed

lemma deepEqual_records:
  assumes "set (map fst res) = set (map fst ps)"
    and "\<And>k. k \<in> set (map fst res) \<Longrightarrow>
           \<exists>w. map_of res k = Some w \<and> deepEqual w (getProp (JObj None ps) k)"
  shows "deepEqual (JObj None res) (JObj None ps)"
proof -
  have "\<forall>k \<in> set (map fst (ownProps (JObj None res))).
          deepEqual (getProp (JObj None res) k) (getProp (JObj None ps) k)"
  proof
    fix k
    assume "k \<in> set (map fst (ownProps (JObj None res)))"
    then have "k \<in> set (map fst res)" by simp
    from assms(2) [OF this] obtain w where "map_of res k = Some w"
      "deepEqual w (getProp (JObj None ps) k)"
      by blast
    then show "deepEqual (getProp (JObj None res) k) (getProp (JObj None ps) k)"
      by (simp add: getProp_def)
  qed
  with assms(1) show ?thesis
    by (subst deepEqual.simps) simp
qed

lemma deepEqual_arrays:
  assumes "list_all2 deepEqual ys xs"
  shows "deepEqual (JArr ys) (JArr xs)"
  using assms by (subst deepEqual.simps) (simp add: list_all2_iff)

lemma mapiE_total:
  assumes "\<And>x i. x \<in> set xs \<Longrightarrow> \<exists>y. f i x = Inr y \<and> G y x"
  shows "\<exists>ys. mapiE f i xs = Inr ys \<and> list_all2 G ys xs"
  using assms
proof (induction xs arbitrary: i)
  case Nil
  show ?case by simp
next
  case (Cons x xs)
  from Cons.prems [of x i] obtain y where y: "f i x = Inr y" "G y x"
    by auto
  have "\<exists>ys. mapiE f (Suc i) xs = Inr ys \<and> list_all2 G ys xs"
  proof (rule Cons.IH)
    fix x0 i0
    assume "x0 \<in> set xs"
    then show "\<exists>y. f i0 x0 = Inr y \<and> G y x0"
      using Cons.prems [of x0 i0] by simp
  qed
  then obtain ys where "mapiE f (Suc i) xs = Inr ys" "list_all2 G ys xs"
    by blast
  with y show ?case by simp
qed

lemma foldE_assigns:
  assumes "\<And>k f. (k, f) \<in> set fs \<Longrightarrow> \<exists>w. G k w \<and> (\<forall>acc. body (k, f) acc = Inr (assign acc k w))"
    and "distinct (map fst fs)"
  shows "\<exists>res. foldE body fs a = Inr res
           \<and> set (map fst res) = set (map fst a) \<union> set (map fst fs)
           \<and> (\<forall>k \<in> set (map fst fs). \<exists>w. map_of res k = Some w \<and> G k w)
           \<and> (\<forall>k. k \<notin> set (map fst fs) \<longrightarrow> map_of res k = map_of a k)"
  using assms
proof (induction fs arbitrary: a)
  case Nil
  show ?case by simp
next
  case (Cons x fs)
  obtain k f where x: "x = (k, f)" by (cases x)
  from Cons.prems(1) [of k f] x obtain w where w: "G k w"
    and step: "\<And>acc. body (k, f) acc = Inr (assign acc k w)"
    by auto
  have fresh: "k \<notin> set (map fst fs)" and d: "distinct (map fst fs)"
    using Cons.prems(2) x by simp_all
  have "\<exists>res. foldE body fs (assign a k w) = Inr res
           \<and> set (map fst res) = set (map fst (assign a k w)) \<union> set (map fst fs)
           \<and> (\<forall>k \<in> set (map fst fs). \<exists>w. map_of res k = Some w \<and> G k w)
           \<and> (\<forall>k'. k' \<notin> set (map fst fs) \<longrightarrow> map_of res k' = map_of (assign a k w) k')"
  proof (rule Cons.IH [OF _ d])
    fix k0 f0
    assume "(k0, f0) \<in> set fs"
    then show "\<exists>w. G k0 w \<and> (\<forall>acc. body (k0, f0) acc = Inr (assign acc k0 w))"
      using Cons.prems(1) [of k0 f0] by simp
  qed
  then obtain res where res: "foldE body fs (assign a k w) = Inr res"
    and keys: "set (map fst res) = set (map fst (assign a k w)) \<union> set (map fst fs)"
    and vals: "\<forall>k \<in> set (map fst fs). \<exists>w. map_of res k = Some w \<and> G k w"
    and others: "\<forall>k'. k' \<notin> set (map fst fs) \<longrightarrow> map_of res k' = map_of (assign a k w) k'"
    by blast
  have 1: "foldE body (x # fs) a = Inr res"
    using x step res by simp
  have ka: "set (map fst (assign a k w)) = insert k (set (map fst a))"
    by (auto simp: map_fst_assign simp del: set_map)
  have 2: "set (map fst res) = set (map fst a) \<union> set (map fst (x # fs))"
    unfolding keys ka using x by (auto simp del: set_map)
  have here: "map_of res k = Some w"
    using others fresh by (simp add: map_of_assign)
  have 3: "\<forall>k' \<in> set (map fst (x # fs)). \<exists>w. map_of res k' = Some w \<and> G k' w"
    using vals here w x by auto
  have 4: "\<forall>k'. k' \<notin> set (map fst (x # fs)) \<longrightarrow> map_of res k' = map_of a k'"
    using others x by (auto simp: map_of_assign)
  from 1 2 3 4 show ?case by blast
qed

lemma conformantField_defined:
  assumes "conformantField R v fm"
  shows "v \<noteq> JUndefined \<and> v \<noteq> JNull"
proof -
  have "validatePrimitiveType v (expectedType fm) \<or> (v \<noteq> JUndefined \<and> v \<noteq> JNull)
        \<or> isPlainRecord v \<or> isArray v"
    using assms
    by (subst (asm) conformantField.simps) (auto split: if_splits option.splits)
  then show ?thesis
    using validatePrimitiveType_defined by auto
qed

lemma conformantField_validates:
  assumes "conformantField R x nf"
  shows "fst (validateFieldType x nf)"
proof (cases "noCheck nf")
  case True
  then show ?thesis by (simp add: validateFieldType_def)
next
  case False
  consider (prim) "typeCheck nf = 1" "validatePrimitiveType x (expectedType nf)"
    | (enum) vs where "typeCheck nf = 8" "fenum nf = Some vs" "arrayIncludes vs x"
    | (rec) "typeCheck nf = 2 \<or> typeCheck nf = 32" "isPlainRecord x"
    | (arr) "typeCheck nf = 4 \<or> typeCheck nf = 16" "isArray x"
    using assms
    by (subst (asm) conformantField.simps) (auto split: if_splits option.splits)
  then show ?thesis
  proof cases
    case prim
    with False show ?thesis by (simp add: validateFieldType_scalar)
  next
    case enum
    with False show ?thesis by (simp add: validateFieldType_def)
  next
    case rec
    from rec(2) have "typeofObject x \<and> x \<noteq> JNull"
      by (cases x rule: isPlainRecord.cases) simp_all
    with rec(1) False show ?thesis by (auto simp: validateFieldType_def)
  next
    case arr
    with False show ?thesis by (auto simp: validateFieldType_def)
  qed
qed

lemma conformantField_cases:
  assumes "conformantField R v fm"
  shows "typeCheck fm = 1 \<or> typeCheck fm = 8 \<or> typeCheck fm = 2 \<or> typeCheck fm = 32
         \<or> typeCheck fm = 4 \<or> typeCheck fm = 16"
    and "typeCheck fm = 1 \<Longrightarrow> validatePrimitiveType v (expectedType fm)"
    and "typeCheck fm = 8 \<Longrightarrow> \<exists>vs. fenum fm = Some vs \<and> arrayIncludes vs v"
    and "typeCheck fm = 2 \<Longrightarrow>
           isPlainRecord v
           \<and> (\<exists>cf. transformDtoFilter R (ftype fm) = Inr cf \<and> conformant R v cf)"
    and "typeCheck fm = 32 \<Longrightarrow> isPlainRecord v \<and> conformant R v (nestedFields fm)"
    and "typeCheck fm = 4 \<Longrightarrow>
           isArray v
           \<and> (\<forall>item \<in> set (elements v).
                 \<exists>cf. transformDtoFilter R (firstType (ftype fm)) = Inr cf
                      \<and> conformant R item cf)"
    and "typeCheck fm = 16 \<Longrightarrow>
           isArray v
           \<and> (\<forall>item \<in> set (elements v). validatePrimitiveType item (expectedType fm))"
proof -
  note c = assms [unfolded conformantField.simps [of R v fm]]
  from c show "typeCheck fm = 1 \<or> typeCheck fm = 8 \<or> typeCheck fm = 2 \<or> typeCheck fm = 32
         \<or> typeCheck fm = 4 \<or> typeCheck fm = 16"
    by (simp split: if_splits)
  from c show "typeCheck fm = 1 \<Longrightarrow> validatePrimitiveType v (expectedType fm)"
    by simp
  from c show "typeCheck fm = 8 \<Longrightarrow> \<exists>vs. fenum fm = Some vs \<and> arrayIncludes vs v"
    by (cases "fenum fm") simp_all
  from c show "typeCheck fm = 2 \<Longrightarrow>
           isPlainRecord v
           \<and> (\<exists>cf. transformDtoFilter R (ftype fm) = Inr cf \<and> conformant R v cf)"
    by (cases "transformDtoFilter R (ftype fm)") (simp_all split: if_splits)
  from c show "typeCheck fm = 32 \<Longrightarrow> isPlainRecord v \<and> conformant R v (nestedFields fm)"
    by (simp split: if_splits)
  from c show "typeCheck fm = 4 \<Longrightarrow>
           isArray v
           \<and> (\<forall>item \<in> set (elements v).
                 \<exists>cf. transformDtoFilter R (firstType (ftype fm)) = Inr cf
                      \<and> conformant R item cf)"
    by (cases "transformDtoFilter R (firstType (ftype fm))") simp_all
  from c show "typeCheck fm = 16 \<Longrightarrow>
           isArray v
           \<and> (\<forall>item \<in> set (elements v). validatePrimitiveType item (expectedType fm))"
    by simp
qed

lemma conformant_record:
  assumes "conformant R obj F"
  shows "\<exists>ps. obj = JObj None ps \<and> set (map fst ps) = set (map fst F)
           \<and> map_of ps ''hasOwnProperty'' = None
           \<and> (\<forall>k f. (k, f) \<in> set F \<longrightarrow> conformantField R (getProp obj k) f)"
proof -
  from assms have r: "isPlainRecord obj"
    by (subst (asm) conformant.simps) (simp split: if_splits)
  then obtain ps where ps: "obj = JObj None ps"
    by (cases obj rule: isPlainRecord.cases) simp_all
  from assms r have "set (map fst (ownProps obj)) = set (map fst F)"
    "\<not> ownProperty obj ''hasOwnProperty''"
    "\<forall>(key, value) \<in> set F. conformantField R (getProp obj key) value"
    by (subst (asm) conformant.simps, simp)+
  with ps show ?thesis
    by (auto simp: ownProperty_def)
qed

lemma transform_conformant_mutual:
  "wf_filter F \<longrightarrow> conformant R obj F \<longrightarrow>
     (\<exists>r. transform R H obj F n = Inr r \<and> deepEqual r obj)"
  "wf_filter (nestedFields fm) \<longrightarrow>
     isNestedObject fm = (typeCheck fm = 32 \<or> typeCheck fm = 40) \<longrightarrow>
     conformantField R v fm \<longrightarrow>
     (\<exists>w. transformField R H v fm p = Inr w \<and> deepEqual w v)"
proof (induction R H obj F n and R H v fm p rule: transform_transformField.induct)
  case (1 R H obj F n)
  show ?case
  proof (intro impI)
    assume wf: "wf_filter F" and c: "conformant R obj F"
    from c obtain ps where obj: "obj = JObj None ps"
      and keys: "set (map fst ps) = set (map fst F)"
      and plain: "map_of ps ''hasOwnProperty'' = None"
      and fields: "\<And>k f. (k, f) \<in> set F \<Longrightarrow> conformantField R (getProp obj k) f"
      using conformant_record [of R obj F] by blast
    have root: "\<not> (obj = JUndefined \<or> obj = JNull)" "\<not> isArray (materialize obj)"
      and m: "materialize obj = obj"
      using obj by simp_all
    have d: "distinct (map fst F)"
      using wf by (subst (asm) wf_filter.simps) simp
    have entries: "\<exists>w. deepEqual w (getProp obj k)
                     \<and> (\<forall>acc. transformEntry R H obj F n (k, f) acc = Inr (assign acc k w))"
      if mem: "(k, f) \<in> set F" for k f
    proof -
      from mem have "k \<in> set (map fst ps)"
        using keys by force
      then obtain x where x: "map_of ps k = Some x"
        by (cases "map_of ps k") (auto simp: map_of_eq_None_iff)
      then have g: "getProp obj k = x"
        by (simp add: obj getProp_def)
      note cf = fields [OF mem]
      from conformantField_defined [OF cf] g have xd: "x \<noteq> JUndefined" "x \<noteq> JNull"
        by simp_all
      have h: "hasOwnProperty (materialize obj) k = Inr True"
        using x plain by (simp add: obj hasOwnProperty_record)
      have nb: "\<not> \<not> True" by simp
      from "1.IH"(2) [OF root mem refl h nb] xd g m wf_filter_entry(2,3) [OF wf mem] cf
      obtain w where w: "transformField R H x f (n @ ''.'' @ k) = Inr w" "deepEqual w x"
        by auto
      have "\<forall>acc. transformEntry R H obj F n (k, f) acc = Inr (assign acc k w)"
        using entry_value [OF x xd plain, of R H F n f] w(1) by (simp add: obj)
      with w(2) g show ?thesis
        by auto
    qed
    from foldE_assigns [where G = "\<lambda>k w. deepEqual w (getProp obj k)"
        and body = "transformEntry R H obj F n" and a = "[]", OF entries d]
    obtain res where f1: "foldE (transformEntry R H obj F n) F [] = Inr res"
      and rk: "set (map fst res) = set (map fst F)"
      and rv: "\<forall>k \<in> set (map fst F). \<exists>w. map_of res k = Some w \<and> deepEqual w (getProp obj k)"
      by auto
    have t: "transform R H obj F n = Inr (JObj None res)"
      using f1 by (simp add: obj transform_record)
    have "deepEqual (JObj None res) (JObj None ps)"
    proof (rule deepEqual_records)
      show "set (map fst res) = set (map fst ps)"
        using rk keys by simp
      fix k
      assume "k \<in> set (map fst res)"
      with rk rv obj show "\<exists>w. map_of res k = Some w \<and> deepEqual w (getProp (JObj None ps) k)"
        by auto
    qed
    with t obj show "\<exists>r. transform R H obj F n = Inr r \<and> deepEqual r obj"
      by simp
  qed
next
  case (2 R H v fm p)
  show ?case
  proof (intro impI)
    assume wf: "wf_filter (nestedFields fm)"
      and kind: "isNestedObject fm = (typeCheck fm = 32 \<or> typeCheck fm = 40)"
      and c: "conformantField R v fm"
    from conformantField_defined [OF c] have u: "v \<noteq> JUndefined" and vn: "v \<noteq> JNull"
      by simp_all
    from vn have nn: "\<not> (v = JNull \<and> nullable fm)" by simp
    consider (prim) "typeCheck fm = 1" "validatePrimitiveType v (expectedType fm)"
      | (enum) vs where "typeCheck fm = 8" "fenum fm = Some vs" "arrayIncludes vs v"
      | (cls) cf where "typeCheck fm = 2" "isPlainRecord v"
          "transformDtoFilter R (ftype fm) = Inr cf" "conformant R v cf"
      | (nested) "typeCheck fm = 32" "isPlainRecord v" "conformant R v (nestedFields fm)"
      | (carr) "typeCheck fm = 4" "isArray v"
          "\<forall>item \<in> set (elements v).
             \<exists>cf. transformDtoFilter R (firstType (ftype fm)) = Inr cf \<and> conformant R item cf"
      | (parr) "typeCheck fm = 16" "isArray v"
          "\<forall>item \<in> set (elements v). validatePrimitiveType item (expectedType fm)"
      using conformantField_cases [OF c] by blast
    then show "\<exists>w. transformField R H v fm p = Inr w \<and> deepEqual w v"
    proof cases
      case prim
      with kind have nf: "\<not> isNestedObject fm" by simp
      from transformField_kinds [OF u nn nf, of R H p] prim
      have "transformField R H v fm p = Inr v"
        by (simp add: transformPrimitive_valid)
      then show ?thesis
        by (auto intro: deepEqual_same)
    next
      case enum
      with kind have nf: "\<not> isNestedObject fm" by simp
      from transformField_kinds [OF u nn nf, of R H p] enum
      have "transformField R H v fm p = Inr v"
        by simp
      then show ?thesis
        by (auto intro: deepEqual_same)
    next
      case cls
      with kind have nf: "\<not> isNestedObject fm" by simp
      from cls(2) have o: "\<not> (\<not> typeofObject v \<or> v = JNull)"
        by (cases v rule: isPlainRecord.cases) simp_all
      have tc: "typeCheck fm \<noteq> 1" "typeCheck fm = 2 \<or> typeCheck fm = 32"
        using cls(1) by simp_all
      have sel: "(if isNestedObject fm then Inr (nestedFields fm)
                  else transformDtoFilter R (ftype fm)) = Inr cf"
        using nf cls(3) by simp
      from "2.IH"(2) [OF u nn nf tc o sel] transformDtoFilter_wf [OF cls(3)] cls(4)
      obtain w where "transform R H v cf p = Inr w" "deepEqual w v"
        by blast
      with transformField_kinds [OF u nn nf, of R H p] cls(1,3) o show ?thesis
        by simp
    next
      case nested
      with kind have n: "isNestedObject fm" by simp
      from nested(2) have o: "typeofObject v" "v \<noteq> JNull"
        by (cases v rule: isPlainRecord.cases, simp_all)+
      then have o': "\<not> (\<not> typeofObject v \<or> v = JNull)" by simp
      from "2.IH"(1) [OF u nn n o'] wf nested(3)
      obtain w where p1: "transform R H v (nestedFields fm) p = Inr w" and e: "deepEqual w v"
        by blast
      from nested(3) obtain ps where v: "v = JObj None ps"
        and keys: "set (map fst ps) = set (map fst (nestedFields fm))"
        and plain: "map_of ps ''hasOwnProperty'' = None"
        and fields: "\<And>k f. (k, f) \<in> set (nestedFields fm) \<Longrightarrow> conformantField R (getProp v k) f"
        using conformant_record [of R v "nestedFields fm"] by blast
      have "validateNested v fm p (nestedFields fm) = None"
      proof (rule validateNested_accepts [OF u vn])
        show "\<not> ownProperty v ''hasOwnProperty''"
          using plain by (simp add: v ownProperty_def)
        show "\<forall>(k, nf) \<in> set (nestedFields fm).
                if ownProperty v k then fst (validateFieldType (getProp v k) nf)
                else \<not> required nf"
        proof (clarify)
          fix k nf
          assume mem: "(k, nf) \<in> set (nestedFields fm)"
          then have "k \<in> set (map fst ps)"
            using keys by force
          then have "ownProperty v k"
            by (auto simp: v ownProperty_def map_of_eq_None_iff)
          with conformantField_validates [OF fields [OF mem]]
          show "if ownProperty v k then fst (validateFieldType (getProp v k) nf)
                else \<not> required nf"
            by simp
        qed
      qed
      with transformField_nested_object [OF n o, of R H p] p1 e show ?thesis
        by simp
    next
      case carr
      with kind have nf: "\<not> isNestedObject fm" by simp
      have tc: "typeCheck fm \<noteq> 1" "\<not> (typeCheck fm = 2 \<or> typeCheck fm = 32)"
        "typeCheck fm = 4 \<or> typeCheck fm = 16"
        using carr(1) by simp_all
      have a: "\<not> \<not> isArray v"
        using carr(2) by simp
      have "\<exists>ys. mapiE (transformItem R H v fm p) 0 (elements v) = Inr ys
              \<and> list_all2 deepEqual ys (elements v)"
      proof (rule mapiE_total)
        fix x i
        assume x: "x \<in> set (elements v)"
        with carr(3) obtain cf where cf: "transformDtoFilter R (firstType (ftype fm)) = Inr cf"
          and cx: "conformant R x cf"
          by blast
        then have "isPlainRecord x"
          by (subst (asm) conformant.simps) (simp split: if_splits)
        then have xd: "x \<noteq> JUndefined" "\<not> (x = JNull \<and> nullable fm)" and xn: "x \<noteq> JNull"
          by (cases x rule: isPlainRecord.cases, simp_all)+
        from "2.IH"(3) [OF u nn nf tc a x xd carr(1) cf] transformDtoFilter_wf [OF cf] cx
        obtain y where "transform R H x cf (p @ ''['' @ show_nat i @ '']'') = Inr y"
          "deepEqual y x"
          by blast
        with xd(1) xn carr(1) cf show "\<exists>y. transformItem R H v fm p i x = Inr y \<and> deepEqual y x"
          by (simp add: transformItem_def)
      qed
      then obtain ys where m: "mapiE (transformItem R H v fm p) 0 (elements v) = Inr ys"
        and e: "list_all2 deepEqual ys (elements v)"
        by blast
      from carr(2) obtain xs where v: "v = JArr xs"
        by (cases v) simp_all
      from transformField_kinds [OF u nn nf, of R H p] carr(1,2) m
      have "transformField R H v fm p = Inr (JArr ys)"
        by simp
      with deepEqual_arrays [of ys xs] e v show ?thesis
        by simp
    next
      case parr
      with kind have nf: "\<not> isNestedObject fm" by simp
      have "\<exists>ys. mapiE (transformItem R H v fm p) 0 (elements v) = Inr ys
              \<and> list_all2 deepEqual ys (elements v)"
      proof (rule mapiE_total)
        fix x i
        assume x: "x \<in> set (elements v)"
        with parr(3) have vx: "validatePrimitiveType x (expectedType fm)" by simp
        from validatePrimitiveType_defined [OF vx] have xd: "x \<noteq> JUndefined" "x \<noteq> JNull"
          by simp_all
        from xd parr(1) transformPrimitive_valid [OF vx]
        have "transformItem R H v fm p i x = Inr x"
          by (simp add: transformItem_def)
        then show "\<exists>y. transformItem R H v fm p i x = Inr y \<and> deepEqual y x"
          by (auto intro: deepEqual_same)
      qed
      then obtain ys where m: "mapiE (transformItem R H v fm p) 0 (elements v) = Inr ys"
        and e: "list_all2 deepEqual ys (elements v)"
        by blast
      from parr(2) obtain xs where v: "v = JArr xs"
        by (cases v) simp_all
      from transformField_kinds [OF u nn nf, of R H p] parr(1,2) m
      have "transformField R H v fm p = Inr (JArr ys)"
        by simp
      with deepEqual_arrays [of ys xs] e v show ?thesis
        by simp
    qed
  qed
qed




end
